theory Spec2Isabelle
  imports
    Complex_Main
    "HOL-Library.Word"
    "HOL-Library.Log_Nat"
    "HOL-Library.Product_Lexorder"
begin

section \<open>Go's float64 and int64, as far as backend/main.go uses them\<close>

text \<open>
  A float64 is a finite binary64 number (kept as the rational it denotes), an infinity or
  a NaN. Every arithmetic operation computes the exact rational result and rounds it to
  the nearest binary64 number, ties to the even significand (IEEE 754 round-to-nearest,
  the only mode Go uses), operation by operation (no fused multiply-add). The two zeros
  are one value \<open>Fin 0\<close>: main.go only multiplies, adds, subtracts, compares with \<open><\<close>,
  converts to int64 and divides by the non-zero constants 100.0 and 1000.0, and none of
  these tells -0 from +0.
\<close>

datatype float64 = Fin rat | PInf | NInf | NaN

definition pow2 :: "int \<Rightarrow> rat" where
  "pow2 e = 2 powi e"

text \<open>\<open>flog2 a\<close> is the binary exponent of a positive rational: \<open>2^e \<le> a < 2^(e+1)\<close>.\<close>

definition flog2 :: "rat \<Rightarrow> int" where
  "flog2 a = (case quotient_of a of (p, q) \<Rightarrow>
     (let e0 = bitlen p - bitlen q in if pow2 e0 \<le> a then e0 else e0 - 1))"

definition round_even :: "rat \<Rightarrow> int" where
  "round_even m = (let n = \<lfloor>m\<rfloor>; f = m - of_int n in
     if f < 1 / 2 then n else if 1 / 2 < f then n + 1 else if even n then n else n + 1)"

text \<open>
  Rounding an exact result to binary64: 53 significant bits, least exponent -1022
  (below it the spacing stays \<open>2^-1074\<close>: subnormal numbers), overflow to an infinity
  once the rounded magnitude reaches \<open>2^1024\<close>.
\<close>

definition rnd :: "rat \<Rightarrow> float64" where
  "rnd r = (if r = 0 then Fin 0 else
     (let a = \<bar>r\<bar>;
          q = pow2 (max (flog2 a) (- 1022) - 52);
          m = of_int (round_even (a / q)) * q
      in if pow2 1024 \<le> m then (if r < 0 then NInf else PInf)
         else Fin (if r < 0 then - m else m)))"

fun fneg :: "float64 \<Rightarrow> float64" where
  "fneg (Fin a) = Fin (- a)"
| "fneg PInf = NInf"
| "fneg NInf = PInf"
| "fneg NaN = NaN"

fun fadd :: "float64 \<Rightarrow> float64 \<Rightarrow> float64" where
  "fadd (Fin a) (Fin b) = rnd (a + b)"
| "fadd NaN y = NaN"
| "fadd x NaN = NaN"
| "fadd PInf NInf = NaN"
| "fadd NInf PInf = NaN"
| "fadd PInf y = PInf"
| "fadd NInf y = NInf"
| "fadd x PInf = PInf"
| "fadd x NInf = NInf"

definition fsub :: "float64 \<Rightarrow> float64 \<Rightarrow> float64" where
  "fsub x y = fadd x (fneg y)"

fun fmul :: "float64 \<Rightarrow> float64 \<Rightarrow> float64" where
  "fmul (Fin a) (Fin b) = rnd (a * b)"
| "fmul NaN y = NaN"
| "fmul x NaN = NaN"
| "fmul (Fin a) PInf = (if a = 0 then NaN else if 0 < a then PInf else NInf)"
| "fmul (Fin a) NInf = (if a = 0 then NaN else if 0 < a then NInf else PInf)"
| "fmul PInf (Fin b) = (if b = 0 then NaN else if 0 < b then PInf else NInf)"
| "fmul NInf (Fin b) = (if b = 0 then NaN else if 0 < b then NInf else PInf)"
| "fmul PInf PInf = PInf"
| "fmul PInf NInf = NInf"
| "fmul NInf PInf = NInf"
| "fmul NInf NInf = PInf"

text \<open>
  Division. main.go divides by 100.0 and 1000.0 only; the quotient by a zero divisor is
  given for a divisor +0 and is never reached.
\<close>

fun fdiv :: "float64 \<Rightarrow> float64 \<Rightarrow> float64" where
  "fdiv (Fin a) (Fin b) =
     (if b = 0 then (if a = 0 then NaN else if 0 < a then PInf else NInf)
      else rnd (a / b))"
| "fdiv NaN y = NaN"
| "fdiv x NaN = NaN"
| "fdiv (Fin a) PInf = Fin 0"
| "fdiv (Fin a) NInf = Fin 0"
| "fdiv PInf (Fin b) = (if 0 \<le> b then PInf else NInf)"
| "fdiv NInf (Fin b) = (if 0 \<le> b then NInf else PInf)"
| "fdiv PInf y = NaN"
| "fdiv NInf y = NaN"

text \<open>The comparison \<open>x < y\<close>: false as soon as one side is a NaN.\<close>

fun flt :: "float64 \<Rightarrow> float64 \<Rightarrow> bool" where
  "flt (Fin a) (Fin b) = (a < b)"
| "flt NaN y = False"
| "flt x NaN = False"
| "flt NInf NInf = False"
| "flt NInf y = True"
| "flt x NInf = False"
| "flt PInf y = False"
| "flt x PInf = True"

type_synonym int64 = "64 word"

text \<open>
  The conversion \<open>int64(x)\<close> discards the fraction (truncation towards zero). When the
  truncated value does not fit an int64 (also for infinities and NaN) the Go specification
  leaves the result to the implementation: \<open>oor\<close> is that choice, a parameter of
  everything that rounds.
\<close>

definition trunc :: "rat \<Rightarrow> int" where
  "trunc r = (if 0 \<le> r then \<lfloor>r\<rfloor> else \<lceil>r\<rceil>)"

definition int64_of_float64 :: "(float64 \<Rightarrow> int64) \<Rightarrow> float64 \<Rightarrow> int64" where
  "int64_of_float64 oor x = (case x of
       Fin r \<Rightarrow> (if - (2 ^ 63) \<le> trunc r \<and> trunc r < 2 ^ 63
                 then word_of_int (trunc r) else oor x)
     | _ \<Rightarrow> oor x)"

definition float64_of_int64 :: "int64 \<Rightarrow> float64" where
  "float64_of_int64 k = rnd (of_int (sint k))"

section \<open>Helpers of main.go\<close>

text \<open>
  \<^verbatim>\<open>func mathRound(x float64) float64 {
      if x < 0 { return float64(int64(x-0.5)) }
      return float64(int64(x+0.5)) }\<close>
\<close>

definition mathRound :: "(float64 \<Rightarrow> int64) \<Rightarrow> float64 \<Rightarrow> float64" where
  "mathRound oor x =
     (if flt x (Fin 0) then float64_of_int64 (int64_of_float64 oor (fsub x (Fin (1 / 2))))
      else float64_of_int64 (int64_of_float64 oor (fadd x (Fin (1 / 2)))))"

text \<open>\<^verbatim>\<open>func round2(v float64) float64 { return mathRound(v*100.0) / 100.0 }\<close>\<close>

definition round2 :: "(float64 \<Rightarrow> int64) \<Rightarrow> float64 \<Rightarrow> float64" where
  "round2 oor v = fdiv (mathRound oor (fmul v (Fin 100))) (Fin 100)"

text \<open>\<open>roundMap\<close> builds a new map with the same keys and every value rounded.\<close>

definition roundMap :: "(float64 \<Rightarrow> int64) \<Rightarrow> (string \<rightharpoonup> float64) \<Rightarrow> (string \<rightharpoonup> float64)" where
  "roundMap oor m = (\<lambda>k. map_option (round2 oor) (m k))"

text \<open>
  A Go string is its sequence of bytes. \<open>strings.ToLower\<close> on a string whose bytes are all
  below 0x80 turns the letters \<open>A\<close> to \<open>Z\<close> into \<open>a\<close> to \<open>z\<close>, byte by byte, and leaves
  every other byte. On a string that holds a byte from 0x80 on it maps \<open>unicode.ToLower\<close>
  over the runes the bytes encode; what that gives is the business of the library and
  its case tables (the Kelvin sign becomes \<open>k\<close>, for one), and a parameter \<open>lowerU\<close>
  of everything that lowers a string.
\<close>

definition isASCII :: "char \<Rightarrow> bool" where
  "isASCII c \<longleftrightarrow> (of_char c :: nat) < 128"

definition toLowerByte :: "char \<Rightarrow> char" where
  "toLowerByte c = (let n = (of_char c :: nat) in
     if 65 \<le> n \<and> n \<le> 90 then char_of (n + 32) else c)"

definition ToLower :: "(string \<Rightarrow> string) \<Rightarrow> string \<Rightarrow> string" where
  "ToLower lowerU s = (if list_all isASCII s then map toLowerByte s else lowerU s)"

section \<open>The emission calculator\<close>

definition carPerKm :: float64 where "carPerKm = rnd (192 / 1000)"
definition busPerKm :: float64 where "busPerKm = rnd (105 / 1000)"
definition trainPerKm :: float64 where "trainPerKm = rnd (41 / 1000)"
definition bikePerKm :: float64 where "bikePerKm = rnd 0"
definition airPerKm :: float64 where "airPerKm = rnd (255 / 1000)"
definition kWhFactor :: float64 where "kWhFactor = rnd (7 / 10)"
definition lpgKgFactor :: float64 where "lpgKgFactor = rnd 3"
definition meatHeavy :: float64 where "meatHeavy = rnd 7"
definition vegetarian :: float64 where "vegetarian = rnd 3"
definition vegan :: float64 where "vegan = rnd 2"
definition shoppingFactorPerThousand :: float64 where
  "shoppingFactorPerThousand = rnd (15 / 10)"

text \<open>
  The two nested \<open>switch\<close> statements of \<open>computeEmission\<close>; a case that matches no
  inner case leaves the outer switch and reaches the final \<open>return 0.0\<close>. The \<open>meta\<close>
  argument is received and never read.
\<close>

definition computeEmission ::
  "(string \<Rightarrow> string) \<Rightarrow> (float64 \<Rightarrow> int64) \<Rightarrow> string \<Rightarrow> string \<Rightarrow> float64 \<Rightarrow> string \<Rightarrow> 'meta \<Rightarrow> float64" where
  "computeEmission lowerU oor category typ qty unit meta =
     (let category = ToLower lowerU category; typ = ToLower lowerU typ;
          unit = ToLower lowerU unit in
      if category = ''transport'' then
        (if typ = ''car'' then round2 oor (fmul qty carPerKm)
         else if typ = ''bus'' then round2 oor (fmul qty busPerKm)
         else if typ = ''train'' then round2 oor (fmul qty trainPerKm)
         else if typ = ''bike'' \<or> typ = ''walk'' then Fin 0
         else if typ = ''flight'' then round2 oor (fmul qty airPerKm)
         else Fin 0)
      else if category = ''energy'' then
        (if typ = ''electricity'' then round2 oor (fmul qty kWhFactor)
         else if typ = ''lpg'' then round2 oor (fmul qty lpgKgFactor)
         else Fin 0)
      else if category = ''food'' then
        (if typ = ''meat_heavy_day'' then meatHeavy
         else if typ = ''vegetarian_day'' then vegetarian
         else if typ = ''vegan_day'' then vegan
         else Fin 0)
      else if category = ''shopping'' then
        round2 oor (fmul (fdiv qty (Fin 1000)) shoppingFactorPerThousand)
      else if category = ''other'' then
        (if unit = ''kgco2e'' \<or> unit = ''kg'' then round2 oor qty else Fin 0)
      else Fin 0)"

section \<open>Times, stored activities and the storage\<close>

text \<open>
  A \<open>time.Time\<close>, in one time zone: the calendar day (counted from a fixed day) and the
  time of day in nanoseconds. \<open>time.Parse("2006-01-02", s)\<close> yields midnight of the day
  that \<open>s\<close> names, or an error; which strings name which day is the library's business
  and a parameter \<open>parse\<close> here. \<open>Format("2006-01-02")\<close> prints the calendar day and
  nothing of the time of day; the model keeps the day number where the program keeps
  that text.
\<close>

record Time =
  day :: int
  tod :: nat

definition After :: "Time \<Rightarrow> Time \<Rightarrow> bool" where
  "After t u \<longleftrightarrow> day u < day t \<or> (day u = day t \<and> tod u < tod t)"

text \<open>\<open>t.AddDate(0, 0, n)\<close>: both calls of main.go pass 0 years and 0 months.\<close>

definition AddDate :: "Time \<Rightarrow> int \<Rightarrow> Time" where
  "AddDate t n = t\<lparr>day := day t + n\<rparr>"

definition Format :: "Time \<Rightarrow> int" where
  "Format t = day t"

definition Parse :: "(string \<Rightarrow> int option) \<Rightarrow> string \<Rightarrow> Time option" where
  "Parse parse s = map_option (\<lambda>d. \<lparr>day = d, tod = 0\<rparr>) (parse s)"

text \<open>
  \<open>strings.TrimSpace\<close> on a string whose bytes are all below 0x80: leading and trailing
  tab, line feed, vertical tab, form feed, carriage return and space go. On a string that
  holds a byte from 0x80 on the library trims by \<open>unicode.IsSpace\<close> on runes (the no-break
  space goes as well, for one); what that gives is a parameter \<open>trimU\<close> of everything that
  trims a string.
\<close>

definition isSpace :: "char \<Rightarrow> bool" where
  "isSpace c \<longleftrightarrow> (of_char c :: nat) \<in> {9, 10, 11, 12, 13, 32}"

definition TrimSpace :: "(string \<Rightarrow> string) \<Rightarrow> string \<Rightarrow> string" where
  "TrimSpace trimU s =
     (if list_all isASCII s then rev (dropWhile isSpace (rev (dropWhile isSpace s)))
      else trimU s)"

record Activity =
  ID :: nat
  Category :: string
  Type :: string
  Quantity :: float64
  Unit :: string
  Meta :: string
  EmissionKg :: float64
  Date :: Time
  CreatedAt :: Time

record 'm CreateActivityDTO =
  Category_dto :: string
  Type_dto :: string
  Quantity_dto :: float64
  Unit_dto :: string
  Meta_dto :: "'m option"
  Date_dto :: string

record DailyPoint =
  Date_pt :: int
  Kg :: float64

record SummaryResponse =
  From :: int
  To :: int
  TotalKg :: float64
  ByCategory :: "string \<rightharpoonup> float64"
  ByDay :: "DailyPoint list"

text \<open>
  What a handler answers when it does not answer 200: status 400 for a body that does
  not bind (\<open>category\<close> and \<open>type\<close> are required) and for an unparsable date, status 500
  when the storage reports an error.
\<close>

datatype http_error = BindError | InvalidDate | InvalidFrom | InvalidTo | StorageError

text \<open>
  The table behind \<open>a.DB\<close>: its rows in insertion order, the last id handed out, and
  whether the storage answers the next operation with an error.
\<close>

record DB =
  rows :: "Activity list"
  lastID :: nat
  failing :: bool

text \<open>\<open>a.DB.Create(&item)\<close>: the storage stamps the id and the creation time.\<close>

definition DB_Create :: "Time \<Rightarrow> DB \<Rightarrow> Activity \<Rightarrow> (Activity \<times> DB) option" where
  "DB_Create now db item =
     (if failing db then None
      else (let item' = item\<lparr>ID := Suc (lastID db), CreatedAt := now\<rparr>
            in Some (item', db\<lparr>rows := rows db @ [item'], lastID := Suc (lastID db)\<rparr>)))"

text \<open>
  \<open>a.DB.Where("date BETWEEN ? AND ?", from, to).Order("date asc").Find(&items)\<close>:
  the rows whose stored date, time of day included, is neither before \<open>from\<close> nor after
  \<open>to\<close>, ordered by that date (rows with equal dates in insertion order).
\<close>

definition DB_Find_between :: "DB \<Rightarrow> Time \<Rightarrow> Time \<Rightarrow> Activity list option" where
  "DB_Find_between db from to =
     (if failing db then None
      else Some (sort_key (\<lambda>a. (day (Date a), tod (Date a)))
                  (filter (\<lambda>a. \<not> After from (Date a) \<and> \<not> After (Date a) to) (rows db))))"

section \<open>The handlers\<close>

text \<open>
  \<open>createActivity\<close>. The date is the current moment when the request gives none, otherwise
  the parsed day; the emission is computed once, here, and stored with the row.
  \<open>marshal\<close> is \<open>json.Marshal\<close> on the meta object (\<open>None\<close> when it fails).
\<close>

definition createActivity ::
  "(string \<Rightarrow> string) \<Rightarrow> (string \<Rightarrow> string) \<Rightarrow>
     (float64 \<Rightarrow> int64) \<Rightarrow> (string \<Rightarrow> int option) \<Rightarrow> ('m \<Rightarrow> string option) \<Rightarrow> Time \<Rightarrow> DB \<Rightarrow>
     'm CreateActivityDTO \<Rightarrow> http_error + (Activity \<times> DB)" where
  "createActivity lowerU trimU oor parse marshal now db dto =
     (if Category_dto dto = [] \<or> Type_dto dto = [] then Inl BindError
      else case (if TrimSpace trimU (Date_dto dto) = [] then Some now else Parse parse (Date_dto dto)) of
        None \<Rightarrow> Inl InvalidDate
      | Some d \<Rightarrow>
          (let emission = computeEmission lowerU oor (Category_dto dto) (Type_dto dto)
                            (Quantity_dto dto) (Unit_dto dto) (Meta_dto dto);
               metaJSON = (case Meta_dto dto of
                             None \<Rightarrow> ''{}''
                           | Some m \<Rightarrow> (case marshal m of Some b \<Rightarrow> b | None \<Rightarrow> ''{}''));
               item = \<lparr>ID = 0, Category = Category_dto dto, Type = Type_dto dto,
                       Quantity = Quantity_dto dto, Unit = Unit_dto dto, Meta = metaJSON,
                       EmissionKg = emission, Date = d, CreatedAt = \<lparr>day = 0, tod = 0\<rparr>\<rparr>
           in case DB_Create now db item of
                None \<Rightarrow> Inl StorageError
              | Some r \<Rightarrow> Inr r))"

text \<open>Reading a Go map at a key it does not hold gives the zero value.\<close>

definition get0 :: "('k \<rightharpoonup> float64) \<Rightarrow> 'k \<Rightarrow> float64" where
  "get0 m k = (case m k of None \<Rightarrow> Fin 0 | Some v \<Rightarrow> v)"

text \<open>
  The loop over the fetched items (lines 195 to 200): the running total \<open>tot\<close>, the sum per
  stored category and the sum per formatted day, each a float64 sum in the order of the
  items.
\<close>

fun accumulate ::
  "Activity list \<Rightarrow> float64 \<times> (string \<rightharpoonup> float64) \<times> (int \<rightharpoonup> float64) \<Rightarrow>
     float64 \<times> (string \<rightharpoonup> float64) \<times> (int \<rightharpoonup> float64)" where
  "accumulate [] s = s"
| "accumulate (it # items) (tot, byCat, byDay) =
     accumulate items
       (fadd tot (EmissionKg it),
        byCat(Category it \<mapsto> fadd (get0 byCat (Category it)) (EmissionKg it)),
        byDay(Format (Date it) \<mapsto> fadd (get0 byDay (Format (Date it))) (EmissionKg it)))"

text \<open>
  The loop that fills the daily points (lines 203 to 207):
  \<^verbatim>\<open>for d := from; !d.After(to); d = d.AddDate(0, 0, 1) { points = append(points, ...) }\<close>
\<close>

function fillPoints :: "(int \<rightharpoonup> float64) \<Rightarrow> Time \<Rightarrow> Time \<Rightarrow> DailyPoint list \<Rightarrow> DailyPoint list" where
  "fillPoints byDay d to points =
     (if After d to then points
      else fillPoints byDay (AddDate d 1) to
             (points @ [\<lparr>Date_pt = Format d, Kg = get0 byDay (Format d)\<rparr>]))"
  by pat_completeness auto
termination
  by (relation "measure (\<lambda>(byDay, d, to, points). nat (day to - day d + 1))")
     (auto simp: After_def AddDate_def)

declare fillPoints.simps [simp del]

text \<open>Lines 191 to 216 of \<open>summary\<close>: from the fetched items to the response.\<close>

definition summarize :: "(float64 \<Rightarrow> int64) \<Rightarrow> Time \<Rightarrow> Time \<Rightarrow> Activity list \<Rightarrow> SummaryResponse" where
  "summarize oor from to items =
     (case accumulate items (Fin 0, Map.empty, Map.empty) of (tot, byCat, byDay) \<Rightarrow>
        \<lparr>From = Format from, To = Format to, TotalKg = round2 oor tot,
         ByCategory = roundMap oor byCat, ByDay = fillPoints byDay from to []\<rparr>)"

text \<open>
  Lines 165 to 183: the range of the summary. A blank \<open>from\<close> is the current moment 29
  days back, a blank \<open>to\<close> the current moment (\<open>now1\<close> and \<open>now2\<close> are the two readings
  of the clock), each with its time of day; a given one is midnight of the parsed day.
\<close>

definition summaryRange ::
  "(string \<Rightarrow> string) \<Rightarrow> (string \<Rightarrow> int option) \<Rightarrow> Time \<Rightarrow> Time \<Rightarrow> string \<Rightarrow> string \<Rightarrow> http_error + (Time \<times> Time)" where
  "summaryRange trimU parse now1 now2 fromStr toStr =
     (case (if TrimSpace trimU fromStr = [] then Some (AddDate now1 (- 29)) else Parse parse fromStr) of
        None \<Rightarrow> Inl InvalidFrom
      | Some from \<Rightarrow>
          (case (if TrimSpace trimU toStr = [] then Some now2 else Parse parse toStr) of
             None \<Rightarrow> Inl InvalidTo
           | Some to \<Rightarrow> Inr (from, to)))"

definition summary ::
  "(string \<Rightarrow> string) \<Rightarrow> (float64 \<Rightarrow> int64) \<Rightarrow> (string \<Rightarrow> int option) \<Rightarrow> Time \<Rightarrow> Time \<Rightarrow> DB \<Rightarrow> string \<Rightarrow> string \<Rightarrow>
     http_error + SummaryResponse" where
  "summary trimU oor parse now1 now2 db fromStr toStr =
     (case summaryRange trimU parse now1 now2 fromStr toStr of
        Inl e \<Rightarrow> Inl e
      | Inr (from, to) \<Rightarrow>
          (case DB_Find_between db from to of
             None \<Rightarrow> Inl StorageError
           | Some items \<Rightarrow> Inr (summarize oor from to items)))"

section \<open>Notions used to state the properties\<close>

text \<open>
  The float64 sum of a sequence, taken in its order from 0.0 as the loops of \<open>summary\<close>
  take it, the rational a finite float64 denotes, and whether a float64 is finite.
\<close>

definition fsum :: "float64 list \<Rightarrow> float64" where
  "fsum xs = foldl fadd (Fin 0) xs"

definition valof :: "float64 \<Rightarrow> rat" where
  "valof x = (case x of Fin r \<Rightarrow> r | _ \<Rightarrow> 0)"

definition isFin :: "float64 \<Rightarrow> bool" where
  "isFin x = (case x of Fin r \<Rightarrow> True | _ \<Rightarrow> False)"

text \<open>
  The last day the day-stepping loop reaches: the day of \<open>to\<close>, or the day before when
  the walk carries a later time of day than \<open>to\<close> does.
\<close>

definition lastDay :: "Time \<Rightarrow> Time \<Rightarrow> int" where
  "lastDay from to = (if tod from \<le> tod to then day to else day to - 1)"

text \<open>
  Rounding to the nearest integer with halves away from zero, as a specification to
  compare \<open>mathRound\<close> with.
\<close>

definition round_half_away :: "rat \<Rightarrow> int" where
  "round_half_away r = (if r < 0 then \<lceil>r - 1 / 2\<rceil> else \<lfloor>r + 1 / 2\<rfloor>)"

section \<open>Concrete inputs for the closed examples\<close>

text \<open>
  One implementation's choice for values that do not fit: Go on amd64 converts with the
  CVTTSD2SQ instruction, which answers the smallest int64.
\<close>

definition oor_amd64 :: "float64 \<Rightarrow> int64" where
  "oor_amd64 x = word_of_int (- (2 ^ 63))"

text \<open>
  A lowering of the strings with bytes from 0x80 on that knows two of them, in UTF-8:
  the Kelvin sign (U+212A) followed by \<open>g\<close>, which \<open>unicode.ToLower\<close> turns into \<open>kg\<close>, and
  \<open>tra\<close>, the capital I with a dot above (U+0130), \<open>n\<close>, which it turns into \<open>train\<close>.
  The dates of the examples hold bytes below 0x80 only, so that trimming never takes its
  Unicode path; the examples pass the identity for it.
\<close>

definition kelvin_g :: string where
  "kelvin_g = [CHR 0xE2, CHR 0x84, CHR 0xAA, CHR 0x67]"

definition tra_I_dot_n :: string where
  "tra_I_dot_n = [CHR 0x74, CHR 0x72, CHR 0x61, CHR 0xC4, CHR 0xB0, CHR 0x6E]"

definition lowerU_example :: "string \<Rightarrow> string" where
  "lowerU_example s =
     (if s = kelvin_g then ''kg'' else if s = tra_I_dot_n then ''train'' else s)"

definition trimU_example :: "string \<Rightarrow> string" where
  "trimU_example s = s"

text \<open>
  A date parser that knows the days the examples name (10 August 2025 is day 20310
  after 1 January 1970), a marshaller, an empty storage, the moment 15:30 on 10 August
  2025 and midnight of that day.
\<close>

definition parse_example :: "string \<Rightarrow> int option" where
  "parse_example s = (if s = ''2025-08-10'' then Some 20310 else None)"

definition marshal_example :: "unit \<Rightarrow> string option" where
  "marshal_example m = Some ''{}''"

definition db_empty :: DB where
  "db_empty = \<lparr>rows = [], lastID = 0, failing = False\<rparr>"

definition now_example :: Time where
  "now_example = \<lparr>day = 20310, tod = 55800000000000\<rparr>"

definition midnight_example :: Time where
  "midnight_example = \<lparr>day = 20310, tod = 0\<rparr>"

text \<open>Two requests for the same vegan day, one without a date and one with.\<close>

definition vegan_today :: "unit CreateActivityDTO" where
  "vegan_today = \<lparr>Category_dto = ''food'', Type_dto = ''vegan_day'', Quantity_dto = Fin 1,
     Unit_dto = ''day'', Meta_dto = None, Date_dto = []\<rparr>"

definition vegan_dated :: "unit CreateActivityDTO" where
  "vegan_dated = \<lparr>Category_dto = ''food'', Type_dto = ''vegan_day'', Quantity_dto = Fin 1,
     Unit_dto = ''day'', Meta_dto = Some (), Date_dto = ''2025-08-10''\<rparr>"

definition vegan_row :: "Time \<Rightarrow> Time \<Rightarrow> Activity" where
  "vegan_row d now = \<lparr>ID = 1, Category = ''food'', Type = ''vegan_day'', Quantity = Fin 1,
     Unit = ''day'', Meta = ''{}'', EmissionKg = Fin 2, Date = d, CreatedAt = now\<rparr>"

text \<open>
  Stored rows of category \<open>c\<close> with emission \<open>e\<close> on day \<open>d\<close> at midnight: three rows on
  consecutive days whose float64 sum loses the middle one, and two rows of 0.1 and 0.2 kg
  on one day.
\<close>

definition example_row :: "nat \<Rightarrow> string \<Rightarrow> float64 \<Rightarrow> int \<Rightarrow> Activity" where
  "example_row i c e d =
     \<lparr>ID = i, Category = c, Type = ''custom'', Quantity = e, Unit = ''kg'', Meta = ''{}'',
      EmissionKg = e, Date = \<lparr>day = d, tod = 0\<rparr>, CreatedAt = \<lparr>day = d, tod = 0\<rparr>\<rparr>"

definition absorb_example :: "Activity list" where
  "absorb_example =
     [example_row 1 ''other'' (Fin 90000000000000000) 20308,
      example_row 2 ''food'' (Fin 7) 20309,
      example_row 3 ''other'' (Fin (- 90000000000000000)) 20310]"

definition tenths_example :: "Activity list" where
  "tenths_example =
     [example_row 1 ''other'' (rnd (1 / 10)) 20310,
      example_row 2 ''other'' (rnd (2 / 10)) 20310]"

definition food_example :: "Activity list" where
  "food_example = [example_row 1 ''food'' (Fin 7) 20310, example_row 2 ''food'' (Fin 2) 20310]"

section \<open>Facts about the float64 model\<close>

lemma pow2_pos: "0 < pow2 e"
  by (simp add: pow2_def)

lemma pow2_add: "pow2 (a + b) = pow2 a * pow2 b"
  by (simp add: pow2_def power_int_add)

lemma pow2_diff: "pow2 (a - b) = pow2 a / pow2 b"
  by (simp add: pow2_def power_int_diff)

lemma pow2_nat: "pow2 (int n) = 2 ^ n"
  by (simp add: pow2_def)

lemma pow2_nonneg_int: "0 \<le> e \<Longrightarrow> pow2 e = of_int (2 ^ nat e)"
  using pow2_nat [of "nat e"] by simp

lemma pow2_mono: "a \<le> b \<Longrightarrow> pow2 a \<le> pow2 b"
  by (simp add: pow2_def power_int_increasing)

lemma pow2_strict_mono: "a < b \<Longrightarrow> pow2 a < pow2 b"
  by (simp add: pow2_def power_int_strict_increasing)

text \<open>The binary exponent is unique, and \<open>flog2\<close> finds it.\<close>

lemma flog2_unique:
  assumes "pow2 e \<le> a" "a < pow2 (e + 1)" "pow2 e' \<le> a" "a < pow2 (e' + 1)"
  shows "e = e'"
proof (rule ccontr)
  assume "e \<noteq> e'"
  then consider "e + 1 \<le> e'" | "e' + 1 \<le> e" by linarith
  then show False
  proof cases
    case 1
    then have "pow2 (e + 1) \<le> pow2 e'" by (rule pow2_mono)
    with assms show False by linarith
  next
    case 2
    then have "pow2 (e' + 1) \<le> pow2 e" by (rule pow2_mono)
    with assms show False by linarith
  qed
qed

lemma bitlen_pow2_bounds:
  assumes "0 < p"
  shows "pow2 (bitlen p - 1) \<le> of_int p" and "of_int p < pow2 (bitlen p)"
proof -
  from bitlen_bounds [OF assms]
  have lo: "2 ^ nat (bitlen p - 1) \<le> p" and hi: "p < 2 ^ nat (bitlen p)" by simp_all
  have ge1: "1 \<le> bitlen p"
    using assms bitlen_eq_zero_iff [of p] bitlen_nonneg [of p] by linarith
  have "pow2 (bitlen p - 1) = 2 ^ nat (bitlen p - 1)"
    using ge1 pow2_nat [of "nat (bitlen p - 1)"] by simp
  also have "\<dots> = of_int (2 ^ nat (bitlen p - 1))" by simp
  also have "\<dots> \<le> of_int p" using lo by (simp only: of_int_le_iff)
  finally show "pow2 (bitlen p - 1) \<le> of_int p" .
  have "(of_int p :: rat) < of_int (2 ^ nat (bitlen p))" using hi by (simp only: of_int_less_iff)
  also have "\<dots> = 2 ^ nat (bitlen p)" by simp
  also have "\<dots> = pow2 (bitlen p)"
    using ge1 pow2_nat [of "nat (bitlen p)"] by simp
  finally show "of_int p < pow2 (bitlen p)" .
qed

lemma flog2_bounds:
  assumes "0 < a"
  shows "pow2 (flog2 a) \<le> a" and "a < pow2 (flog2 a + 1)"
proof -
  obtain p q where pq: "quotient_of a = (p, q)" by (cases "quotient_of a")
  have q: "0 < q" using pq by (rule quotient_of_denom_pos)
  have a: "a = of_int p / of_int q" using pq by (rule quotient_of_div)
  have p: "0 < p" using assms q a by (simp add: zero_less_divide_iff)
  let ?e0 = "bitlen p - bitlen q"
  have qr: "(0::rat) < of_int q" using q by simp
  have "a < pow2 (bitlen p) / of_int q"
    unfolding a using bitlen_pow2_bounds(2) [OF p] qr by (simp add: divide_strict_right_mono)
  also have "\<dots> \<le> pow2 (bitlen p) / pow2 (bitlen q - 1)"
    using bitlen_pow2_bounds(1) [OF q] pow2_pos [of "bitlen q - 1"] pow2_pos [of "bitlen p"]
    by (simp add: frac_le)
  also have "\<dots> = pow2 (?e0 + 1)" by (simp add: pow2_diff [symmetric] algebra_simps)
  finally have hi: "a < pow2 (?e0 + 1)" .
  have "pow2 (?e0 - 1) = pow2 (bitlen p - 1) / pow2 (bitlen q)"
    by (simp add: pow2_diff [symmetric] algebra_simps)
  also have "\<dots> \<le> of_int p / pow2 (bitlen q)"
    using bitlen_pow2_bounds(1) [OF p] pow2_pos [of "bitlen q"] by (simp add: divide_right_mono)
  also have "\<dots> \<le> of_int p / of_int q"
    using bitlen_pow2_bounds(2) [OF q] p qr by (simp add: frac_le)
  finally have lo: "pow2 (?e0 - 1) \<le> a" by (simp add: a)
  have f: "flog2 a = (if pow2 ?e0 \<le> a then ?e0 else ?e0 - 1)"
    by (simp add: flog2_def pq Let_def)
  show "pow2 (flog2 a) \<le> a" using lo by (simp add: f)
  show "a < pow2 (flog2 a + 1)" using hi by (auto simp add: f not_le)
qed

lemma flog2_eq:
  assumes "pow2 e \<le> a" "a < pow2 (e + 1)"
  shows "flog2 a = e"
proof -
  have "0 < a" using assms(1) pow2_pos [of e] by linarith
  from flog2_bounds [OF this] assms show ?thesis by (rule flog2_unique)
qed

lemma round_even_of_int: "round_even (of_int n) = n"
  by (simp add: round_even_def)

lemma round_even_nonneg: "0 \<le> x \<Longrightarrow> 0 \<le> round_even x"
  by (simp add: round_even_def Let_def)

lemma round_even_le:
  assumes "x \<le> of_int N"
  shows "round_even x \<le> N"
proof -
  have fl: "\<lfloor>x\<rfloor> \<le> N" using assms by (simp add: floor_le_iff)
  show ?thesis
  proof (cases "of_int \<lfloor>x\<rfloor> = x")
    case True
    then have "x - of_int \<lfloor>x\<rfloor> = 0" by linarith
    then show ?thesis using fl by (simp only: round_even_def Let_def) simp
  next
    case False
    then have "of_int \<lfloor>x\<rfloor> < x" using of_int_floor_le [of x] by linarith
    then have "of_int \<lfloor>x\<rfloor> < (of_int N :: rat)" using assms by linarith
    then have "\<lfloor>x\<rfloor> < N" by (simp only: of_int_less_iff)
    then show ?thesis by (simp add: round_even_def Let_def)
  qed
qed

text \<open>A number with a significand below \<open>2^53\<close> is a binary64 number: rounding keeps it.\<close>

lemma rnd_exact:
  assumes r: "r = of_int m * pow2 e" and m: "\<bar>m\<bar> < 2 ^ 53" and e: "- 1074 \<le> e"
    and top: "\<bar>r\<bar> < pow2 1024"
  shows "rnd r = Fin r"
proof (cases "r = 0")
  case True
  then show ?thesis by (simp add: rnd_def)
next
  case False
  define a where "a = \<bar>r\<bar>"
  define e' where "e' = max (flog2 a) (- 1022) - 52"
  define M where "M = \<bar>m\<bar>"
  have a_pos: "0 < a" using False by (simp add: a_def)
  have a_eq: "a = of_int M * pow2 e"
    using r pow2_pos [of e] by (simp add: a_def M_def abs_mult)
  have "of_int M * pow2 e < of_int (2 ^ 53) * pow2 e"
    using m pow2_pos [of e] unfolding M_def
    by (intro mult_strict_right_mono) (simp_all only: of_int_less_iff)
  also have "\<dots> = pow2 (e + 53)"
    using pow2_nat [of 53] by (simp add: pow2_add)
  finally have "pow2 (flog2 a) < pow2 (e + 53)"
    using flog2_bounds(1) [OF a_pos] a_eq by linarith
  then have "flog2 a < e + 53"
    using pow2_mono [of "e + 53" "flog2 a"] by (cases "flog2 a < e + 53") auto
  with e have le: "e' \<le> e" by (simp add: e'_def max_def)
  have sp: "pow2 e = pow2 (e - e') * pow2 e'"
    using pow2_add [of "e - e'" e'] by simp
  have "a / pow2 e' = of_int M * pow2 (e - e')"
    using pow2_pos [of e'] by (simp add: a_eq sp)
  also have "\<dots> = of_int (M * 2 ^ nat (e - e'))"
    using le pow2_nonneg_int [of "e - e'"] by simp
  finally have "round_even (a / pow2 e') = M * 2 ^ nat (e - e')"
    by (simp only: round_even_of_int)
  then have "of_int (round_even (a / pow2 e')) * pow2 e' = of_int M * pow2 (e - e') * pow2 e'"
    using le pow2_nonneg_int [of "e - e'"] by simp
  also have "\<dots> = a"
    by (simp add: a_eq sp)
  finally have rt: "of_int (round_even (a / pow2 e')) * pow2 e' = a" .
  have "rnd r = (if pow2 1024 \<le> a then (if r < 0 then NInf else PInf)
         else Fin (if r < 0 then - a else a))"
    using False rt by (simp add: rnd_def Let_def a_def [symmetric] e'_def [symmetric])
  then show ?thesis
    using top by (simp add: a_def not_le)
qed

lemma rnd_of_int:
  assumes "\<bar>n\<bar> < 2 ^ 53"
  shows "rnd (of_int n) = Fin (of_int n)"
proof (rule rnd_exact [where m = n and e = 0])
  show "rat_of_int n = of_int n * pow2 0" by (simp add: pow2_def)
  show "\<bar>n\<bar> < 2 ^ 53" by fact
  show "- 1074 \<le> (0::int)" by simp
  have "\<bar>rat_of_int n\<bar> = of_int \<bar>n\<bar>" by simp
  also have "\<dots> < of_int (2 ^ 53)" using assms by (simp only: of_int_less_iff)
  also have "\<dots> \<le> pow2 1024" by (simp add: pow2_def)
  finally show "\<bar>rat_of_int n\<bar> < pow2 1024" .
qed

text \<open>Rounding a number whose binary exponent is known: plain arithmetic on numerals.\<close>

lemma rnd_eval:
  assumes "pow2 e \<le> \<bar>r\<bar>" "\<bar>r\<bar> < pow2 (e + 1)" "- 1022 \<le> e"
  shows "rnd r = (let q = pow2 (e - 52); m = of_int (round_even (\<bar>r\<bar> / q)) * q
      in if pow2 1024 \<le> m then (if r < 0 then NInf else PInf)
         else Fin (if r < 0 then - m else m))"
proof -
  have f: "flog2 \<bar>r\<bar> = e" using assms(1,2) by (rule flog2_eq)
  have m: "max e (- 1022) = e" using assms(3) by simp
  have "r \<noteq> 0" using assms(1) pow2_pos [of e] by auto
  then show ?thesis by (simp only: rnd_def Let_def f m if_False)
qed

lemma floor_rat_numeral: "\<lfloor>numeral a / numeral b :: rat\<rfloor> = numeral a div numeral b"
  using floor_divide_of_int_eq [of "numeral a" "numeral b", where ?'a = rat] by simp

text \<open>Rounding never crosses a power of two, so a bounded number stays finite.\<close>

lemma rnd_bounded:
  assumes "\<bar>r\<bar> \<le> pow2 k" "- 1074 \<le> k" "k < 1024"
  shows "\<exists>y. rnd r = Fin y \<and> \<bar>y\<bar> \<le> pow2 k"
proof (cases "r = 0")
  case True
  then show ?thesis using pow2_pos [of k] by (simp add: rnd_def less_imp_le)
next
  case False
  define a where "a = \<bar>r\<bar>"
  define e' where "e' = max (flog2 a) (- 1022) - 52"
  define m where "m = of_int (round_even (a / pow2 e')) * pow2 e'"
  have a_pos: "0 < a" using False by (simp add: a_def)
  have "pow2 (flog2 a) \<le> pow2 k" using flog2_bounds(1) [OF a_pos] assms(1) by (simp add: a_def)
  then have "flog2 a \<le> k"
    using pow2_strict_mono [of k "flog2 a"] by (cases "flog2 a \<le> k") auto
  with assms(2) have le: "e' \<le> k" by (simp add: e'_def max_def)
  have sp: "pow2 k = pow2 (k - e') * pow2 e'"
    using pow2_add [of "k - e'" e'] by simp
  have "a / pow2 e' \<le> pow2 k / pow2 e'"
    using assms(1) pow2_pos [of e'] by (simp add: a_def divide_right_mono)
  also have "\<dots> = of_int (2 ^ nat (k - e'))"
    using le pow2_nonneg_int [of "k - e'"] pow2_pos [of e'] by (simp add: sp)
  finally have "round_even (a / pow2 e') \<le> 2 ^ nat (k - e')" by (rule round_even_le)
  then have "of_int (round_even (a / pow2 e')) \<le> (of_int (2 ^ nat (k - e')) :: rat)"
    by (simp only: of_int_le_iff)
  then have "m \<le> of_int (2 ^ nat (k - e')) * pow2 e'"
    unfolding m_def using pow2_pos [of e'] by (intro mult_right_mono) simp_all
  also have "\<dots> = pow2 k"
    using le pow2_nonneg_int [of "k - e'"] by (simp add: sp)
  finally have m_le: "m \<le> pow2 k" .
  have "0 \<le> a / pow2 e'" using a_pos pow2_pos [of e'] by simp
  then have "0 \<le> round_even (a / pow2 e')" by (rule round_even_nonneg)
  then have m_ge: "0 \<le> m" unfolding m_def using pow2_pos [of e'] by simp
  have "pow2 k < pow2 1024" using assms(3) by (rule pow2_strict_mono)
  with m_le have small: "\<not> pow2 1024 \<le> m" by linarith
  have "rnd r = Fin (if r < 0 then - m else m)"
    using False small
    by (simp add: rnd_def Let_def a_def [symmetric] e'_def [symmetric] m_def [symmetric])
  then show ?thesis using m_le m_ge by auto
qed

lemma sint_int64: "- (2 ^ 63) \<le> k \<Longrightarrow> k < 2 ^ 63 \<Longrightarrow> sint (word_of_int k :: int64) = k"
  by (simp add: sint_sbintrunc' signed_take_bit_int_eq_self)

lemma sint_int64_range: "- (2 ^ 63) \<le> sint (k :: int64) \<and> sint k < 2 ^ 63"
  using sint_ge [of k] sint_lt [of k] by simp

text \<open>Whatever was converted, an int64 converts back to a finite float64.\<close>

lemma float64_of_int64_finite: "\<exists>y. float64_of_int64 k = Fin y \<and> \<bar>y\<bar> \<le> pow2 63"
proof -
  have "\<bar>sint k\<bar> \<le> 2 ^ 63" using sint_int64_range [of k] by linarith
  then have "(of_int \<bar>sint k\<bar> :: rat) \<le> of_int (2 ^ 63)" by (simp only: of_int_le_iff)
  then have "\<bar>rat_of_int (sint k)\<bar> \<le> pow2 63" using pow2_nat [of 63] by simp
  then show ?thesis unfolding float64_of_int64_def by (rule rnd_bounded) simp_all
qed

lemma mathRound_finite: "\<exists>y. mathRound oor x = Fin y \<and> \<bar>y\<bar> \<le> pow2 63"
  by (simp add: mathRound_def float64_of_int64_finite)

lemma round2_finite: "\<exists>z. round2 oor v = Fin z"
proof -
  obtain y where y: "mathRound oor (fmul v (Fin 100)) = Fin y" "\<bar>y\<bar> \<le> pow2 63"
    using mathRound_finite by blast
  have "\<bar>y / 100\<bar> \<le> \<bar>y\<bar>" by simp
  then have "\<bar>y / 100\<bar> \<le> pow2 63" using y(2) by linarith
  then obtain z where "rnd (y / 100) = Fin z" using rnd_bounded [of "y / 100" 63] by auto
  then show ?thesis by (simp add: round2_def y(1))
qed

section \<open>Facts about the helpers\<close>

lemma toLowerByte_idem: "toLowerByte (toLowerByte c) = toLowerByte c"
  by (auto simp: toLowerByte_def Let_def)

lemma toLowerByte_ASCII: "isASCII c \<Longrightarrow> isASCII (toLowerByte c)"
  by (auto simp: toLowerByte_def isASCII_def Let_def)

text \<open>On strings of bytes below 0x80 lowering does not ask the Unicode tables.\<close>

lemma ToLower_ASCII: "list_all isASCII s \<Longrightarrow> ToLower lo s = map toLowerByte s"
  by (simp add: ToLower_def)

lemma ToLower_idem_ASCII:
  "list_all isASCII s \<Longrightarrow> ToLower lo (ToLower lo s) = ToLower lo s"
  by (simp add: ToLower_def list_all_iff toLowerByte_ASCII toLowerByte_idem)

lemma ToLower_lits:
  "ToLower lo ''transport'' = ''transport''" "ToLower lo ''energy'' = ''energy''"
  "ToLower lo ''food'' = ''food''" "ToLower lo ''shopping'' = ''shopping''"
  "ToLower lo ''other'' = ''other''"
  "ToLower lo ''car'' = ''car''" "ToLower lo ''bus'' = ''bus''" "ToLower lo ''train'' = ''train''"
  "ToLower lo ''bike'' = ''bike''" "ToLower lo ''walk'' = ''walk''"
  "ToLower lo ''flight'' = ''flight''"
  "ToLower lo ''electricity'' = ''electricity''" "ToLower lo ''lpg'' = ''lpg''"
  "ToLower lo ''meat_heavy_day'' = ''meat_heavy_day''"
  "ToLower lo ''vegetarian_day'' = ''vegetarian_day''"
  "ToLower lo ''vegan_day'' = ''vegan_day''" "ToLower lo ''kg'' = ''kg''"
  "ToLower lo ''kgco2e'' = ''kgco2e''"
  by (simp_all add: ToLower_def isASCII_def toLowerByte_def)

lemma consts_val:
  "meatHeavy = Fin 7" "vegetarian = Fin 3" "vegan = Fin 2" "lpgKgFactor = Fin 3"
  "shoppingFactorPerThousand = Fin (3 / 2)" "bikePerKm = Fin 0"
  unfolding meatHeavy_def vegetarian_def vegan_def lpgKgFactor_def shoppingFactorPerThousand_def bikePerKm_def
  using rnd_of_int [of 7] rnd_of_int [of 3] rnd_of_int [of 2]
    rnd_exact [of "3 / 2" 3 "- 1"]
  by (simp_all add: pow2_def rnd_def)

lemma computeEmission_cong:
  "ToLower lo c = ToLower lo c' \<Longrightarrow> ToLower lo t = ToLower lo t' \<Longrightarrow>
   ToLower lo u = ToLower lo u' \<Longrightarrow>
   computeEmission lo oor c t q u m = computeEmission lo oor c' t' q u' m"
  by (simp add: computeEmission_def)

lemma computeEmission_lower:
  "ToLower lo (ToLower lo c) = ToLower lo c \<Longrightarrow> ToLower lo (ToLower lo t) = ToLower lo t \<Longrightarrow>
   ToLower lo (ToLower lo u) = ToLower lo u \<Longrightarrow>
   computeEmission lo oor c t q u m
     = computeEmission lo oor (ToLower lo c) (ToLower lo t) q (ToLower lo u) m"
  by (rule computeEmission_cong) simp_all

lemma computeEmission_finite: "\<exists>r. computeEmission lo oor c t q u m = Fin r"
  using round2_finite by (simp add: computeEmission_def Let_def consts_val)

lemma int64_roundtrip:
  assumes "- (2 ^ 63) \<le> trunc y" "trunc y < 2 ^ 63"
  shows "float64_of_int64 (int64_of_float64 oor (Fin y)) = rnd (of_int (trunc y))"
  using assms by (simp add: float64_of_int64_def int64_of_float64_def sint_int64)

lemma mathRound_Fin:
  assumes "rnd (if r < 0 then r - 1 / 2 else r + 1 / 2) = Fin y"
    and "- (2 ^ 63) \<le> trunc y" "trunc y < 2 ^ 63"
  shows "mathRound oor (Fin r) = rnd (of_int (trunc y))"
  using assms by (auto simp add: mathRound_def fsub_def int64_roundtrip)

lemma round2_Fin:
  assumes "rnd (v * 100) = Fin x"
    and "rnd (if x < 0 then x - 1 / 2 else x + 1 / 2) = Fin y"
    and "trunc y = k" "- (2 ^ 63) \<le> k" "k < 2 ^ 63"
    and "rnd (of_int k) = Fin w"
  shows "round2 oor (Fin v) = rnd (w / 100)"
  using assms mathRound_Fin [of x y oor] by (simp add: round2_def)

lemma rnd_zero: "rnd 0 = Fin 0"
  by (simp add: rnd_def)

lemma floor_rat_one: "\<lfloor>1 / numeral b :: rat\<rfloor> = 1 div numeral b"
  using floor_divide_of_int_eq [of 1 "numeral b", where ?'a = rat] by simp

lemma ceiling_rat_neg_numeral: "\<lceil>- (numeral a / numeral b) :: rat\<rceil> = - (numeral a div numeral b)"
  by (simp add: ceiling_def floor_rat_numeral)

lemmas rnd_simps = pow2_def round_even_def Let_def floor_rat_numeral floor_rat_one
  ceiling_rat_neg_numeral trunc_def

lemma carPerKm_val: "carPerKm = Fin (3458764513820541 / 18014398509481984)"
  unfolding carPerKm_def by (simp add: rnd_eval [where e = "- 3"] rnd_simps)

lemma lit_3_84: "rnd (384 / 100) = Fin (1080863910568919 / 281474976710656)"
  by (simp add: rnd_eval [where e = 1] rnd_simps)

lemma car_20: "fmul (Fin 20) carPerKm = Fin (1080863910568919 / 281474976710656)"
  by (simp add: carPerKm_val rnd_eval [where e = 1] rnd_simps)

lemma round2_3_84:
  "round2 oor (Fin (1080863910568919 / 281474976710656)) = Fin (1080863910568919 / 281474976710656)"
proof -
  have "round2 oor (Fin (1080863910568919 / 281474976710656)) = rnd (384 / 100)"
    by (rule round2_Fin [where x = 384 and y = "769 / 2" and k = 384])
       (simp_all add: rnd_eval [where e = 8] rnd_simps)
  then show ?thesis by (simp only: lit_3_84)
qed

lemma round2_small_int:
  "round2 oor (Fin 0) = Fin 0" "round2 oor (Fin 2) = Fin 2" "round2 oor (Fin 3) = Fin 3"
  "round2 oor (Fin 5) = Fin 5" "round2 oor (Fin 7) = Fin 7"
proof -
  show "round2 oor (Fin 0) = Fin 0"
    using round2_Fin [where v = 0 and x = 0 and y = "1 / 2" and k = 0 and w = 0 and oor = oor]
    by (simp add: rnd_eval [where e = "- 1"] rnd_simps rnd_zero)
  show "round2 oor (Fin 2) = Fin 2"
    using round2_Fin [where v = 2 and x = 200 and y = "401 / 2" and k = 200 and w = 200 and oor = oor]
    by (simp add: rnd_eval [where e = 7] rnd_eval [where e = 1] rnd_simps)
  show "round2 oor (Fin 3) = Fin 3"
    using round2_Fin [where v = 3 and x = 300 and y = "601 / 2" and k = 300 and w = 300 and oor = oor]
    by (simp add: rnd_eval [where e = 8] rnd_eval [where e = 1] rnd_simps)
  show "round2 oor (Fin 5) = Fin 5"
    using round2_Fin [where v = 5 and x = 500 and y = "1001 / 2" and k = 500 and w = 500 and oor = oor]
    by (simp add: rnd_eval [where e = 8] rnd_eval [where e = 2] rnd_simps)
  show "round2 oor (Fin 7) = Fin 7"
    using round2_Fin [where v = 7 and x = 700 and y = "1401 / 2" and k = 700 and w = 700 and oor = oor]
    by (simp add: rnd_eval [where e = 9] rnd_eval [where e = 2] rnd_simps)
qed


lemma mathRound_exact_half_away:
  assumes "\<bar>r\<bar> < 2 ^ 52"
    and "rnd (if r < 0 then r - 1 / 2 else r + 1 / 2) = Fin (if r < 0 then r - 1 / 2 else r + 1 / 2)"
  shows "mathRound oor (Fin r) = Fin (of_int (round_half_away r))"
proof -
  define y where "y = (if r < 0 then r - 1 / 2 else r + 1 / 2)"
  have t: "trunc y = round_half_away r"
    by (auto simp: y_def trunc_def round_half_away_def)
  have "\<bar>y\<bar> < 2 ^ 52 + 1" using assms(1) by (auto simp: y_def)
  then have "\<bar>of_int (trunc y) :: rat\<bar> < 2 ^ 52 + 1"
    unfolding trunc_def by (auto simp: abs_if) linarith+
  then have "\<bar>of_int (trunc y) :: rat\<bar> < of_int (2 ^ 53)" by simp
  then have "(of_int \<bar>trunc y\<bar> :: rat) < of_int (2 ^ 53)" by simp
  then have b: "\<bar>trunc y\<bar> < 2 ^ 53" by (simp only: of_int_less_iff)
  have "(2::int) ^ 53 \<le> 2 ^ 63" by simp
  with b have "- (2 ^ 63) \<le> trunc y" "trunc y < 2 ^ 63" by linarith+
  moreover have "rnd (if r < 0 then r - 1 / 2 else r + 1 / 2) = Fin y"
    using assms(2) by (simp only: y_def)
  ultimately have "mathRound oor (Fin r) = rnd (of_int (trunc y))"
    by (intro mathRound_Fin)
  then show ?thesis using rnd_of_int [OF b] by (simp only: t)
qed

lemma computeEmission_rows:
  "computeEmission lo oor ''transport'' ''car'' q u m = round2 oor (fmul q carPerKm)"
  "computeEmission lo oor ''transport'' ''bus'' q u m = round2 oor (fmul q busPerKm)"
  "computeEmission lo oor ''transport'' ''train'' q u m = round2 oor (fmul q trainPerKm)"
  "computeEmission lo oor ''transport'' ''flight'' q u m = round2 oor (fmul q airPerKm)"
  "computeEmission lo oor ''energy'' ''electricity'' q u m = round2 oor (fmul q kWhFactor)"
  "computeEmission lo oor ''energy'' ''lpg'' q u m = round2 oor (fmul q lpgKgFactor)"
  "computeEmission lo oor ''shopping'' t q u m
     = round2 oor (fmul (fdiv q (Fin 1000)) shoppingFactorPerThousand)"
  "computeEmission lo oor ''food'' ''meat_heavy_day'' q u m = meatHeavy"
  "computeEmission lo oor ''food'' ''vegetarian_day'' q u m = vegetarian"
  "computeEmission lo oor ''food'' ''vegan_day'' q u m = vegan"
  "computeEmission lo oor ''transport'' ''bike'' q u m = Fin 0"
  "computeEmission lo oor ''transport'' ''walk'' q u m = Fin 0"
  by (simp_all add: computeEmission_def ToLower_lits)

lemma computeEmission_other:
  "ToLower lo c = ''other'' \<Longrightarrow> computeEmission lo oor c t q u m =
     (if ToLower lo u = ''kg'' \<or> ToLower lo u = ''kgco2e'' then round2 oor q else Fin 0)"
  by (auto simp add: computeEmission_def)

lemma computeEmission_unit:
  "ToLower lo c \<noteq> ''other'' \<Longrightarrow> computeEmission lo oor c t q u m = computeEmission lo oor c t q u' m"
  by (simp add: computeEmission_def Let_def)


lemma computeEmission_meta:
  "computeEmission lo oor c t q u m = computeEmission lo oor c t q u m'"
  by (simp add: computeEmission_def)

lemma createActivity_emission:
  assumes "createActivity lo tr oor parse marshal now db dto = Inr (a, db')"
  shows "EmissionKg a = computeEmission lo oor (Category_dto dto) (Type_dto dto)
           (Quantity_dto dto) (Unit_dto dto) (Meta_dto dto)"
    and "a \<in> set (rows db')"
  using assms
  by (auto simp add: createActivity_def DB_Create_def Let_def
      split: if_splits option.splits)


lemma lit_1_005: "rnd (201 / 200) = Fin (1131529406376837 / 1125899906842624)"
  "rnd (- (201 / 200)) = Fin (- (1131529406376837 / 1125899906842624))"
  by (simp_all add: rnd_eval [where e = 0] rnd_simps)

lemma lit_1_01: "rnd (101 / 100) = Fin (4548635623644201 / 4503599627370496)"
  by (simp add: rnd_eval [where e = 0] rnd_simps)

lemma lit_0_13: "rnd (13 / 100) = Fin (1170935903116329 / 9007199254740992)"
  "rnd (- (13 / 100)) = Fin (- (1170935903116329 / 9007199254740992))"
  by (simp_all add: rnd_eval [where e = "- 3"] rnd_simps)

lemma lit_0_12: "rnd (12 / 100) = Fin (1080863910568919 / 9007199254740992)"
  by (simp add: rnd_eval [where e = "- 4"] rnd_simps)

lemma round2_1_005:
  "round2 oor (Fin (1131529406376837 / 1125899906842624)) = Fin 1"
  "round2 oor (Fin (- (1131529406376837 / 1125899906842624))) = Fin (- 1)"
proof -
  have "round2 oor (Fin (1131529406376837 / 1125899906842624)) = rnd (100 / 100)"
    by (rule round2_Fin [where x = "7072058789855231 / 70368744177664"
          and y = "7107243161944063 / 70368744177664" and k = 100])
       (simp_all add: rnd_eval [where e = 6] rnd_simps)
  then show "round2 oor (Fin (1131529406376837 / 1125899906842624)) = Fin 1"
    by (simp add: rnd_eval [where e = 0] rnd_simps)
  show "round2 oor (Fin (- (1131529406376837 / 1125899906842624))) = Fin (- 1)"
    using round2_Fin [where v = "- (1131529406376837 / 1125899906842624)"
        and x = "- (7072058789855231 / 70368744177664)"
        and y = "- (7107243161944063 / 70368744177664)" and k = "- 100" and w = "- 100"
        and oor = oor]
    by (simp add: rnd_eval [where e = 6] rnd_eval [where e = 0] rnd_simps)
qed

lemma round2_0_125:
  "round2 oor (Fin (1 / 8)) = rnd (13 / 100)"
  "round2 oor (Fin (- (1 / 8))) = rnd (- (13 / 100))"
proof -
  show "round2 oor (Fin (1 / 8)) = rnd (13 / 100)"
    by (rule round2_Fin [where x = "25 / 2" and y = 13 and k = 13])
       (simp_all add: rnd_eval [where e = 3] rnd_simps)
  show "round2 oor (Fin (- (1 / 8))) = rnd (- (13 / 100))"
    using round2_Fin [where v = "- (1 / 8)" and x = "- (25 / 2)" and y = "- 13" and k = "- 13"
        and w = "- 13" and oor = oor]
    by (simp add: rnd_eval [where e = 3] rnd_simps)
qed

lemma computeEmission_hundredths:
  "\<exists>k. computeEmission lo oor c t q u m = fdiv (float64_of_int64 k) (Fin 100)"
proof -
  have r: "\<exists>k. round2 oor v = fdiv (float64_of_int64 k) (Fin 100)" for v
    by (auto simp add: round2_def mathRound_def)
  have c: "\<exists>k. Fin (of_int n) = fdiv (float64_of_int64 k) (Fin 100)"
    if "\<bar>n\<bar> < 2 ^ 40" for n
  proof -
    define j where "j = n * 100"
    have b: "\<bar>j\<bar> < 2 ^ 53" using that by (simp add: j_def abs_mult)
    have "(2::int) ^ 53 \<le> 2 ^ 63" by simp
    with b have "- (2 ^ 63) \<le> j" "j < 2 ^ 63" by linarith+
    then have "sint (word_of_int j :: int64) = j" by (rule sint_int64)
    then have "float64_of_int64 (word_of_int j) = Fin (of_int j)"
      using rnd_of_int [OF b] by (simp only: float64_of_int64_def)
    moreover have "rat_of_int j / 100 = of_int n" by (simp add: j_def)
    moreover have "rnd (of_int n) = Fin (of_int n)"
      using that by (intro rnd_of_int) simp
    ultimately have "fdiv (float64_of_int64 (word_of_int j)) (Fin 100) = Fin (of_int n)"
      by simp
    then show ?thesis by metis
  qed
  from c [of 0] c [of 7] c [of 3] c [of 2]
  have "\<exists>k. Fin 0 = fdiv (float64_of_int64 k) (Fin 100)"
    "\<exists>k. Fin 7 = fdiv (float64_of_int64 k) (Fin 100)"
    "\<exists>k. Fin 3 = fdiv (float64_of_int64 k) (Fin 100)"
    "\<exists>k. Fin 2 = fdiv (float64_of_int64 k) (Fin 100)" by simp_all
  then show ?thesis
    using r by (simp add: computeEmission_def Let_def consts_val)
qed

lemma hundredths_differ: "rnd (13 / 100) \<noteq> rnd (12 / 100)"
  by (simp only: lit_0_13 lit_0_12) simp

text \<open>
  The two strings the example lowering knows: a unit written with the Kelvin sign is kg,
  a type written with the dotted capital I is train (100 km give 4.1).
\<close>

lemma unicode_lower:
  "ToLower lowerU_example kelvin_g = ''kg''"
  "ToLower lowerU_example tra_I_dot_n = ''train''"
  by (simp_all add: ToLower_def isASCII_def lowerU_example_def kelvin_g_def tra_I_dot_n_def)

lemma trainPerKm_val: "trainPerKm = Fin (5908722711110091 / 144115188075855872)"
  unfolding trainPerKm_def by (simp add: rnd_eval [where e = "- 5"] rnd_simps)

lemma train_100: "round2 oor (fmul (Fin 100) trainPerKm) = rnd (41 / 10)"
proof -
  have p: "fmul (Fin 100) trainPerKm = Fin (4616189618054759 / 1125899906842624)"
    by (simp add: trainPerKm_val rnd_eval [where e = 2] rnd_simps)
  have "round2 oor (Fin (4616189618054759 / 1125899906842624)) = rnd (410 / 100)"
    by (rule round2_Fin [where x = "7212796278210561 / 17592186044416"
          and y = "7221592371232769 / 17592186044416" and k = 410])
       (simp_all add: rnd_eval [where e = 8] rnd_simps)
  then show ?thesis by (simp add: p)
qed

lemma unicode_examples:
  "computeEmission lowerU_example oor ''other'' t (Fin 5) kelvin_g m = Fin 5"
  "computeEmission lowerU_example oor ''transport'' tra_I_dot_n (Fin 100) u m = rnd (41 / 10)"
proof -
  show "computeEmission lowerU_example oor ''other'' t (Fin 5) kelvin_g m = Fin 5"
    by (simp add: computeEmission_other ToLower_lits unicode_lower round2_small_int)
  have "computeEmission lowerU_example oor ''transport'' tra_I_dot_n (Fin 100) u m
      = computeEmission lowerU_example oor ''transport'' ''train'' (Fin 100) u m"
    by (rule computeEmission_cong) (simp_all only: unicode_lower ToLower_lits)
  then show "computeEmission lowerU_example oor ''transport'' tra_I_dot_n (Fin 100) u m
      = rnd (41 / 10)"
    by (simp only: computeEmission_rows train_100)
qed

section \<open>Facts about the handlers\<close>

lemma TrimSpace_lits: "TrimSpace tr [] = []" "TrimSpace tr ''2025-08-10'' = ''2025-08-10''"
  by (simp_all add: TrimSpace_def isASCII_def isSpace_def)

lemma create_vegan_today:
  "createActivity lo tr oor_amd64 parse_example marshal_example now_example db_empty vegan_today
   = Inr (vegan_row now_example now_example,
          \<lparr>rows = [vegan_row now_example now_example], lastID = 1, failing = False\<rparr>)"
  by (simp add: createActivity_def DB_Create_def db_empty_def TrimSpace_lits computeEmission_rows
      consts_val Let_def vegan_today_def vegan_row_def)

lemma create_vegan_dated:
  "createActivity lo tr oor_amd64 parse_example marshal_example now_example db_empty vegan_dated
   = Inr (vegan_row midnight_example now_example,
          \<lparr>rows = [vegan_row midnight_example now_example], lastID = 1, failing = False\<rparr>)"
  by (simp add: createActivity_def DB_Create_def db_empty_def TrimSpace_lits computeEmission_rows
      consts_val Let_def vegan_dated_def vegan_row_def Parse_def parse_example_def
      marshal_example_def midnight_example_def)

lemma filter_key_empty: "k \<notin> f ` set xs \<Longrightarrow> filter (\<lambda>a. f a = k) xs = []"
  by (auto simp add: filter_empty_conv)

text \<open>What the loop over the items leaves in its three accumulators.\<close>

lemma accumulate_total:
  "fst (accumulate items (t, bc, bd)) = foldl fadd t (map EmissionKg items)"
  by (induction items arbitrary: t bc bd) simp_all

lemma accumulate_byCat:
  "fst (snd (accumulate items (t, bc, bd))) c =
     (if c \<in> Category ` set items
      then Some (foldl fadd (get0 bc c) (map EmissionKg (filter (\<lambda>a. Category a = c) items)))
      else bc c)"
proof (induction items arbitrary: t bc bd)
  case Nil
  then show ?case by simp
next
  case (Cons it items)
  show ?case
    by (simp add: Cons.IH get0_def filter_key_empty)
qed

lemma accumulate_byDay:
  "snd (snd (accumulate items (t, bc, bd))) k =
     (if k \<in> (\<lambda>a. Format (Date a)) ` set items
      then Some (foldl fadd (get0 bd k) (map EmissionKg (filter (\<lambda>a. Format (Date a) = k) items)))
      else bd k)"
proof (induction items arbitrary: t bc bd)
  case Nil
  then show ?case by simp
next
  case (Cons it items)
  show ?case
    by (simp add: Cons.IH get0_def filter_key_empty)
qed

lemma get0_byDay:
  "get0 (snd (snd (accumulate items (Fin 0, Map.empty, Map.empty)))) k =
     fsum (map EmissionKg (filter (\<lambda>a. Format (Date a) = k) items))"
  by (simp add: get0_def accumulate_byDay fsum_def filter_key_empty)

text \<open>The day-stepping loop appends one point per day, from the day of \<open>d\<close> to \<open>lastDay d to\<close>.\<close>

lemma fillPoints_eq:
  "fillPoints byDay d to points =
     points @ map (\<lambda>k. \<lparr>Date_pt = k, Kg = get0 byDay k\<rparr>) [day d .. lastDay d to]"
proof (induction byDay d to points rule: fillPoints.induct)
  case (1 byDay d to points)
  show ?case
  proof (cases "After d to")
    case True
    then have "lastDay d to < day d" by (auto simp add: After_def lastDay_def)
    then have "[day d .. lastDay d to] = []" by simp
    with True show ?thesis by (simp add: fillPoints.simps [of byDay d to points])
  next
    case False
    then have le: "day d \<le> lastDay d to" by (auto simp add: After_def lastDay_def)
    have l: "lastDay (AddDate d 1) to = lastDay d to" by (simp add: lastDay_def AddDate_def)
    have u: "[day d .. lastDay d to] = day d # [day d + 1 .. lastDay d to]"
      using le by (simp add: upto_rec1)
    have "fillPoints byDay d to points =
        fillPoints byDay (AddDate d 1) to (points @ [\<lparr>Date_pt = Format d, Kg = get0 byDay (Format d)\<rparr>])"
      using False by (simp add: fillPoints.simps [of byDay d to points])
    also have "\<dots> = (points @ [\<lparr>Date_pt = Format d, Kg = get0 byDay (Format d)\<rparr>]) @
        map (\<lambda>k. \<lparr>Date_pt = k, Kg = get0 byDay k\<rparr>) [day (AddDate d 1) .. lastDay (AddDate d 1) to]"
      using False by (rule "1.IH")
    also have "\<dots> = points @ map (\<lambda>k. \<lparr>Date_pt = k, Kg = get0 byDay k\<rparr>) [day d .. lastDay d to]"
      by (simp only: l) (simp add: u Format_def AddDate_def)
    finally show ?thesis .
  qed
qed

text \<open>The three parts of the response, in terms of the items.\<close>

lemma summarize_TotalKg:
  "TotalKg (summarize oor from to items) = round2 oor (fsum (map EmissionKg items))"
proof -
  obtain t bc bd where a: "accumulate items (Fin 0, Map.empty, Map.empty) = (t, bc, bd)"
    by (cases "accumulate items (Fin 0, Map.empty, Map.empty)")
  have "t = foldl fadd (Fin 0) (map EmissionKg items)"
    using accumulate_total [of items "Fin 0" Map.empty Map.empty] by (simp add: a)
  then show ?thesis by (simp add: summarize_def a fsum_def)
qed

lemma summarize_ByCategory:
  "ByCategory (summarize oor from to items) c =
     (if c \<in> Category ` set items
      then Some (round2 oor (fsum (map EmissionKg (filter (\<lambda>a. Category a = c) items))))
      else None)"
proof -
  obtain t bc bd where a: "accumulate items (Fin 0, Map.empty, Map.empty) = (t, bc, bd)"
    by (cases "accumulate items (Fin 0, Map.empty, Map.empty)")
  have "fst (snd (accumulate items (Fin 0, Map.empty, Map.empty))) = bc" by (simp add: a)
  then have "bc c = (if c \<in> Category ` set items
      then Some (foldl fadd (Fin 0) (map EmissionKg (filter (\<lambda>a. Category a = c) items)))
      else None)"
    using accumulate_byCat [of items "Fin 0" Map.empty Map.empty c] by (simp add: get0_def)
  moreover have "ByCategory (summarize oor from to items) c = map_option (round2 oor) (bc c)"
    by (simp add: summarize_def a roundMap_def)
  ultimately show ?thesis by (simp add: fsum_def)
qed

lemma summarize_dom:
  "dom (ByCategory (summarize oor from to items)) = Category ` set items"
  by (auto simp add: dom_def summarize_ByCategory split: if_splits)

lemma summarize_ByDay:
  "ByDay (summarize oor from to items) =
     map (\<lambda>k. \<lparr>Date_pt = k, Kg = fsum (map EmissionKg (filter (\<lambda>a. Format (Date a) = k) items))\<rparr>)
       [day from .. lastDay from to]"
proof -
  obtain t bc bd where a: "accumulate items (Fin 0, Map.empty, Map.empty) = (t, bc, bd)"
    by (cases "accumulate items (Fin 0, Map.empty, Map.empty)")
  have s: "snd (snd (accumulate items (Fin 0, Map.empty, Map.empty))) = bd" by (simp add: a)
  have g: "get0 bd = (\<lambda>k. fsum (map EmissionKg (filter (\<lambda>a. Format (Date a) = k) items)))"
    using get0_byDay [of items] unfolding s by (intro ext)
  have "ByDay (summarize oor from to items) = fillPoints bd from to []"
    by (simp add: summarize_def a)
  also have "\<dots> = map (\<lambda>k. \<lparr>Date_pt = k, Kg = get0 bd k\<rparr>) [day from .. lastDay from to]"
    by (simp add: fillPoints_eq)
  finally show ?thesis by (simp only: g)
qed

text \<open>
  When \<open>from\<close> carries no later time of day than \<open>to\<close> (two parsed days, or two readings
  of the clock within one day), the series has one point for every day from the day of
  \<open>from\<close> to the day of \<open>to\<close>, in ascending order, a day without items carrying 0.
\<close>

lemma by_day_dense:
  assumes "tod from \<le> tod to"
  shows "ByDay (summarize oor from to items) =
     map (\<lambda>k. \<lparr>Date_pt = k, Kg = fsum (map EmissionKg (filter (\<lambda>a. Format (Date a) = k) items))\<rparr>)
       [day from .. day to]"
  using assms by (simp add: summarize_ByDay lastDay_def)

lemma by_day_zero:
  "k \<notin> (\<lambda>a. Format (Date a)) ` set items \<Longrightarrow>
     fsum (map EmissionKg (filter (\<lambda>a. Format (Date a) = k) items)) = Fin 0"
  by (simp add: filter_key_empty fsum_def)

lemma summarize_empty:
  "summarize oor from to [] =
     \<lparr>From = day from, To = day to, TotalKg = Fin 0, ByCategory = Map.empty,
      ByDay = map (\<lambda>k. \<lparr>Date_pt = k, Kg = Fin 0\<rparr>) [day from .. lastDay from to]\<rparr>"
  by (simp add: summarize_def round2_small_int roundMap_def fillPoints_eq get0_def Format_def)

text \<open>A range whose \<open>from\<close> is after its \<open>to\<close> fetches nothing and has no day to step through.\<close>

lemma Find_between_after:
  assumes "After from to"
  shows "DB_Find_between db from to = (if failing db then None else Some [])"
proof -
  have "After from (Date a) \<or> After (Date a) to" for a :: Activity
    using assms by (auto simp add: After_def)
  then have "filter (\<lambda>a. \<not> After from (Date a) \<and> \<not> After (Date a) to) (rows db) = []"
    by (auto simp add: filter_empty_conv)
  then show ?thesis by (simp add: DB_Find_between_def)
qed

lemma summarize_after:
  assumes "After from to"
  shows "ByDay (summarize oor from to []) = []" and "TotalKg (summarize oor from to []) = Fin 0"
proof -
  have "lastDay from to < day from" using assms by (auto simp add: After_def lastDay_def)
  then show "ByDay (summarize oor from to []) = []" by (simp add: summarize_empty)
  show "TotalKg (summarize oor from to []) = Fin 0" by (simp add: summarize_empty)
qed

text \<open>The examples, evaluated.\<close>

lemma Find_between_example:
  "DB_Find_between \<lparr>rows = [vegan_row now_example now_example], lastID = 1, failing = False\<rparr>
     midnight_example midnight_example = Some []"
  "DB_Find_between \<lparr>rows = [vegan_row midnight_example now_example], lastID = 1, failing = False\<rparr>
     midnight_example midnight_example = Some [vegan_row midnight_example now_example]"
  "DB_Find_between db_empty from to = Some []"
  by (simp_all add: DB_Find_between_def After_def vegan_row_def now_example_def
      midnight_example_def db_empty_def)

lemma summaryRange_example:
  "summaryRange tr parse_example now_example now_example ''2025-08-10'' ''2025-08-10''
     = Inr (midnight_example, midnight_example)"
  "summaryRange tr parse_example now_example now_example [] ''2025-08-10''
     = Inr (\<lparr>day = 20281, tod = 55800000000000\<rparr>, midnight_example)"
  by (simp_all add: summaryRange_def TrimSpace_lits Parse_def parse_example_def
      midnight_example_def now_example_def AddDate_def)

lemma lit_tenths:
  "rnd (1 / 10) = Fin (3602879701896397 / 36028797018963968)"
  "rnd (2 / 10) = Fin (3602879701896397 / 18014398509481984)"
  "rnd (3 / 10) = Fin (5404319552844595 / 18014398509481984)"
  by (simp_all add: rnd_eval [where e = "- 4"] rnd_eval [where e = "- 3"]
      rnd_eval [where e = "- 2"] rnd_simps)

lemma fsum_tenths:
  "fsum [Fin (3602879701896397 / 36028797018963968), Fin (3602879701896397 / 18014398509481984)]
     = Fin (1351079888211149 / 4503599627370496)"
  by (simp add: fsum_def rnd_eval [where e = "- 4"] rnd_eval [where e = "- 2"] rnd_simps)

lemma round2_tenths:
  "round2 oor (Fin (1351079888211149 / 4503599627370496)) = Fin (5404319552844595 / 18014398509481984)"
  using round2_Fin [where v = "1351079888211149 / 4503599627370496"
      and x = "8444249301319681 / 281474976710656" and y = "8584986789675009 / 281474976710656"
      and k = 30 and w = 30 and oor = oor]
  by (simp add: rnd_eval [where e = 4] rnd_eval [where e = "- 2"] rnd_simps)

lemma tenths_filter:
  "filter (\<lambda>a. Format (Date a) = 20310) tenths_example = tenths_example"
  "map EmissionKg tenths_example = [rnd (1 / 10), rnd (2 / 10)]"
  by (simp_all add: tenths_example_def example_row_def Format_def)

lemma tenths_ByDay:
  "ByDay (summarize oor midnight_example midnight_example tenths_example)
     = [\<lparr>Date_pt = 20310, Kg = fsum [rnd (1 / 10), rnd (2 / 10)]\<rparr>]"
proof -
  have "[day midnight_example .. lastDay midnight_example midnight_example] = [20310]"
    by (simp add: lastDay_def midnight_example_def)
  then show ?thesis by (simp only: summarize_ByDay list.map tenths_filter)
qed

lemma fsum_absorb:
  "fsum [Fin 90000000000000000, Fin 7, Fin (- 90000000000000000)] = Fin 0"
  "fsum [Fin 90000000000000000, Fin (- 90000000000000000)] = Fin 0"
  "fsum [Fin 7] = Fin 7"
  by (simp_all add: fsum_def rnd_eval [where e = 56] rnd_eval [where e = 2] rnd_simps rnd_zero)

lemma absorb_parts:
  "map EmissionKg absorb_example = [Fin 90000000000000000, Fin 7, Fin (- 90000000000000000)]"
  "map EmissionKg (filter (\<lambda>a. Category a = ''other'') absorb_example)
     = [Fin 90000000000000000, Fin (- 90000000000000000)]"
  "map EmissionKg (filter (\<lambda>a. Category a = ''food'') absorb_example) = [Fin 7]"
  "Category ` set absorb_example = {''food'', ''other''}"
  by (auto simp add: absorb_example_def example_row_def)

lemma absorb_summary:
  "TotalKg (summarize oor from to absorb_example) = Fin 0"
  "ByCategory (summarize oor from to absorb_example) ''other'' = Some (Fin 0)"
  "ByCategory (summarize oor from to absorb_example) ''food'' = Some (Fin 7)"
  "dom (ByCategory (summarize oor from to absorb_example)) = {''food'', ''other''}"
proof -
  show "TotalKg (summarize oor from to absorb_example) = Fin 0"
    by (simp only: summarize_TotalKg absorb_parts fsum_absorb round2_small_int)
  show "ByCategory (summarize oor from to absorb_example) ''other'' = Some (Fin 0)"
    by (simp add: summarize_ByCategory absorb_parts fsum_absorb round2_small_int)
  show "ByCategory (summarize oor from to absorb_example) ''food'' = Some (Fin 7)"
    by (simp add: summarize_ByCategory absorb_parts fsum_absorb round2_small_int)
  show "dom (ByCategory (summarize oor from to absorb_example)) = {''food'', ''other''}"
    by (auto simp add: dom_def summarize_ByCategory absorb_parts(4) split: if_splits)
qed

text \<open>
  The rows of the absorbing example are what the storage hands over for their range, in
  this order, and each emission is one \<open>computeEmission\<close> really returns.
\<close>

lemma absorb_fetched:
  "DB_Find_between \<lparr>rows = absorb_example, lastID = 3, failing = False\<rparr>
     \<lparr>day = 20308, tod = 0\<rparr> midnight_example = Some absorb_example"
  by (simp add: DB_Find_between_def After_def absorb_example_def example_row_def
      midnight_example_def)

lemma absorb_reachable:
  "computeEmission lo oor ''other'' ''custom'' (Fin 90000000000000000) ''kg'' () = Fin 90000000000000000"
  "computeEmission lo oor ''other'' ''custom'' (Fin (- 90000000000000000)) ''kg'' ()
     = Fin (- 90000000000000000)"
  "computeEmission lo oor ''food'' ''meat_heavy_day'' (Fin 1) ''day'' () = Fin 7"
proof -
  have "round2 oor (Fin 90000000000000000) = Fin 90000000000000000"
    using round2_Fin [where v = 90000000000000000 and x = 9000000000000000000
        and y = 9000000000000000000 and k = 9000000000000000000 and w = 9000000000000000000
        and oor = oor]
    by (simp add: rnd_eval [where e = 62] rnd_eval [where e = 56] rnd_simps)
  then show "computeEmission lo oor ''other'' ''custom'' (Fin 90000000000000000) ''kg'' ()
      = Fin 90000000000000000"
    by (simp add: computeEmission_other ToLower_lits)
  have "round2 oor (Fin (- 90000000000000000)) = Fin (- 90000000000000000)"
    using round2_Fin [where v = "- 90000000000000000" and x = "- 9000000000000000000"
        and y = "- 9000000000000000000" and k = "- 9000000000000000000"
        and w = "- 9000000000000000000" and oor = oor]
    by (simp add: rnd_eval [where e = 62] rnd_eval [where e = 56] rnd_simps)
  then show "computeEmission lo oor ''other'' ''custom'' (Fin (- 90000000000000000)) ''kg'' ()
      = Fin (- 90000000000000000)"
    by (simp add: computeEmission_other ToLower_lits)
  show "computeEmission lo oor ''food'' ''meat_heavy_day'' (Fin 1) ''day'' () = Fin 7"
    by (simp add: computeEmission_rows consts_val)
qed

lemma Find_between_defaulted_from:
  "DB_Find_between \<lparr>rows = [vegan_row midnight_example now_example], lastID = 1, failing = False\<rparr>
     \<lparr>day = 20281, tod = 55800000000000\<rparr> midnight_example
   = Some [vegan_row midnight_example now_example]"
  by (simp add: DB_Find_between_def After_def vegan_row_def midnight_example_def)

lemma vegan_row_sums:
  "map EmissionKg [vegan_row d n] = [Fin 2]"
  "Category ` set [vegan_row d n] = {''food''}"
  "filter (\<lambda>a. Category a = ''food'') [vegan_row d n] = [vegan_row d n]"
  "filter (\<lambda>a. Format (Date a) = k) [vegan_row midnight_example n]
     = (if k = 20310 then [vegan_row midnight_example n] else [])"
  by (simp_all add: vegan_row_def Format_def midnight_example_def)

lemma fsum_two: "fsum [Fin 2] = Fin 2" "fsum [] = Fin 0"
  by (simp_all add: fsum_def rnd_eval [where e = 1] rnd_simps)

section \<open>Rounding errors of float64 sums\<close>

text \<open>One rounding moves a number of magnitude at most \<open>2^p\<close> by at most \<open>2^(p-53)\<close>.\<close>

lemma round_even_err: "\<bar>of_int (round_even m) - m\<bar> \<le> 1 / 2"
proof -
  define f where "f = m - of_int \<lfloor>m\<rfloor>"
  have f: "0 \<le> f" "f < 1" unfolding f_def by linarith+
  have m: "m = of_int \<lfloor>m\<rfloor> + f" by (simp add: f_def)
  have r: "round_even m = (if f < 1 / 2 then \<lfloor>m\<rfloor> else if 1 / 2 < f then \<lfloor>m\<rfloor> + 1
      else if even \<lfloor>m\<rfloor> then \<lfloor>m\<rfloor> else \<lfloor>m\<rfloor> + 1)"
    by (simp add: round_even_def Let_def f_def)
  consider "f < 1 / 2" | "1 / 2 < f" | "f = 1 / 2" by linarith
  then show ?thesis
  proof cases
    case 1
    then have "of_int (round_even m) - m = - f" using m by (simp add: r)
    then show ?thesis using 1 f by simp
  next
    case 2
    then have "of_int (round_even m) - m = 1 - f" using m by (simp add: r)
    then show ?thesis using 2 f by simp
  next
    case 3
    then have "of_int (round_even m) - m = - f \<or> of_int (round_even m) - m = 1 - f"
      using m by (simp add: r)
    then show ?thesis using 3 by auto
  qed
qed

lemma rnd_err:
  assumes "\<bar>r\<bar> \<le> pow2 p" "- 1022 \<le> p" "p < 1024"
  shows "\<exists>y. rnd r = Fin y \<and> \<bar>y - r\<bar> \<le> pow2 (p - 53) \<and> \<bar>y\<bar> \<le> pow2 p
           \<and> (0 \<le> r \<longrightarrow> 0 \<le> y) \<and> (r \<le> 0 \<longrightarrow> y \<le> 0)"
proof (cases "r = 0")
  case True
  then show ?thesis using pow2_pos [of p] pow2_pos [of "p - 53"] by (simp add: rnd_def less_imp_le)
next
  case False
  define a where "a = \<bar>r\<bar>"
  define e' where "e' = max (flog2 a) (- 1022) - 52"
  define m where "m = of_int (round_even (a / pow2 e')) * pow2 e'"
  have a_pos: "0 < a" using False by (simp add: a_def)
  have "pow2 (flog2 a) \<le> pow2 p" using flog2_bounds(1) [OF a_pos] assms(1) by (simp add: a_def)
  then have "flog2 a \<le> p"
    using pow2_strict_mono [of p "flog2 a"] by (cases "flog2 a \<le> p") auto
  with assms(2) have le: "e' \<le> p - 52" by (simp add: e'_def max_def)
  then have lek: "e' \<le> p" by simp
  have sp: "pow2 p = pow2 (p - e') * pow2 e'"
    using pow2_add [of "p - e'" e'] by simp
  have "a / pow2 e' \<le> pow2 p / pow2 e'"
    using assms(1) pow2_pos [of e'] by (simp add: a_def divide_right_mono)
  also have "\<dots> = of_int (2 ^ nat (p - e'))"
    using lek pow2_nonneg_int [of "p - e'"] pow2_pos [of e'] by (simp add: sp)
  finally have "round_even (a / pow2 e') \<le> 2 ^ nat (p - e')" by (rule round_even_le)
  then have "of_int (round_even (a / pow2 e')) \<le> (of_int (2 ^ nat (p - e')) :: rat)"
    by (simp only: of_int_le_iff)
  then have "m \<le> of_int (2 ^ nat (p - e')) * pow2 e'"
    unfolding m_def using pow2_pos [of e'] by (intro mult_right_mono) simp_all
  also have "\<dots> = pow2 p"
    using lek pow2_nonneg_int [of "p - e'"] by (simp add: sp)
  finally have m_le: "m \<le> pow2 p" .
  have "0 \<le> a / pow2 e'" using a_pos pow2_pos [of e'] by simp
  then have "0 \<le> round_even (a / pow2 e')" by (rule round_even_nonneg)
  then have m_ge: "0 \<le> m" unfolding m_def using pow2_pos [of e'] by simp
  have "pow2 p < pow2 1024" using assms(3) by (rule pow2_strict_mono)
  with m_le have small: "\<not> pow2 1024 \<le> m" by linarith
  have "m - a = (of_int (round_even (a / pow2 e')) - a / pow2 e') * pow2 e'"
    using pow2_pos [of e'] by (simp add: m_def algebra_simps)
  then have "\<bar>m - a\<bar> = \<bar>of_int (round_even (a / pow2 e')) - a / pow2 e'\<bar> * pow2 e'"
    using pow2_pos [of e'] by (simp add: abs_mult)
  also have "\<dots> \<le> (1 / 2) * pow2 e'"
    using round_even_err [of "a / pow2 e'"] pow2_pos [of e'] by (intro mult_right_mono) simp_all
  also have "\<dots> = pow2 (e' - 1)" using pow2_diff [of e' 1] by (simp add: pow2_def)
  also have "\<dots> \<le> pow2 (p - 53)" using le by (intro pow2_mono) simp
  finally have err: "\<bar>m - a\<bar> \<le> pow2 (p - 53)" .
  have "rnd r = Fin (if r < 0 then - m else m)"
    using False small
    by (simp add: rnd_def Let_def a_def [symmetric] e'_def [symmetric] m_def [symmetric])
  moreover have "\<bar>(if r < 0 then - m else m) - r\<bar> = \<bar>m - a\<bar>"
    by (auto simp add: a_def abs_if)
  ultimately show ?thesis using False m_le m_ge err by auto
qed


lemma fadd_Fin_err:
  assumes "\<bar>a + b\<bar> \<le> pow2 p" "- 1022 \<le> p" "p < 1024"
  shows "\<exists>y. fadd (Fin a) (Fin b) = Fin y \<and> \<bar>y - (a + b)\<bar> \<le> pow2 (p - 53)"
  using rnd_err [OF assms] by auto

text \<open>Float sums of at most \<open>2^20\<close> finite values of absolute sum at most \<open>2^20\<close>.\<close>

lemma foldl_fadd_err:
  assumes "sum_list (map abs xs) \<le> 2 ^ 20" "length xs \<le> 2 ^ 20"
  shows "\<exists>s. foldl fadd (Fin 0) (map Fin xs) = Fin s
           \<and> \<bar>s - sum_list xs\<bar> \<le> of_nat (length xs) * pow2 (- 32)"
  using assms
proof (induction xs rule: rev_induct)
  case Nil
  then show ?case by simp
next
  case (snoc x xs)
  have ax: "0 \<le> \<bar>x\<bar>" by simp
  have "sum_list (map abs xs) \<le> 2 ^ 20" "length xs \<le> 2 ^ 20"
    using snoc.prems by simp_all
  then obtain s where s: "foldl fadd (Fin 0) (map Fin xs) = Fin s"
    and e: "\<bar>s - sum_list xs\<bar> \<le> of_nat (length xs) * pow2 (- 32)"
    using snoc.IH by blast
  have n: "(of_nat (length xs) :: rat) \<le> 2 ^ 20"
    using \<open>length xs \<le> 2 ^ 20\<close> by (metis of_nat_le_iff of_nat_numeral of_nat_power)
  have "of_nat (length xs) * pow2 (- 32) \<le> 2 ^ 20 * pow2 (- 32)"
    using n pow2_pos [of "- 32"] by (intro mult_right_mono) simp_all
  also have "\<dots> \<le> 1" by (simp add: pow2_def)
  finally have e1: "\<bar>s - sum_list xs\<bar> \<le> 1" using e by linarith
  have "\<bar>sum_list xs + x\<bar> \<le> sum_list (map abs (xs @ [x]))"
    using sum_list_abs [of "xs @ [x]"] by simp
  then have t: "\<bar>sum_list xs + x\<bar> \<le> 2 ^ 20" using snoc.prems(1) by linarith
  have "\<bar>s + x\<bar> \<le> \<bar>s - sum_list xs\<bar> + \<bar>sum_list xs + x\<bar>" by linarith
  then have "\<bar>s + x\<bar> \<le> 1 + 2 ^ 20" using e1 t by linarith
  also have "\<dots> \<le> pow2 21" by (simp add: pow2_def)
  finally have "\<bar>s + x\<bar> \<le> pow2 21" .
  then obtain y where y: "fadd (Fin s) (Fin x) = Fin y" and ye: "\<bar>y - (s + x)\<bar> \<le> pow2 (21 - 53)"
    using fadd_Fin_err [of s x 21] by auto
  have "\<bar>y - sum_list (xs @ [x])\<bar> \<le> \<bar>y - (s + x)\<bar> + \<bar>s - sum_list xs\<bar>" by simp
  also have "\<dots> \<le> pow2 (- 32) + of_nat (length xs) * pow2 (- 32)" using ye e by simp
  also have "\<dots> = of_nat (length (xs @ [x])) * pow2 (- 32)" by (simp add: algebra_simps)
  finally have "\<bar>y - sum_list (xs @ [x])\<bar> \<le> of_nat (length (xs @ [x])) * pow2 (- 32)" .
  then show ?case using s y by simp
qed

lemma trunc_err:
  "(0 \<le> y \<longrightarrow> of_int (trunc y) \<le> y \<and> y < of_int (trunc y) + 1)
   \<and> (y \<le> 0 \<longrightarrow> y \<le> of_int (trunc y) \<and> of_int (trunc y) < y + 1)"
  unfolding trunc_def by (auto; linarith)

lemma trunc_abs_le: "\<bar>of_int (trunc y) :: rat\<bar> \<le> \<bar>y\<bar>"
proof (cases "0 \<le> y")
  case True
  then have "0 \<le> \<lfloor>y\<rfloor>" by simp
  then have "(0::rat) \<le> of_int \<lfloor>y\<rfloor>" by simp
  moreover have "of_int \<lfloor>y\<rfloor> \<le> y" by linarith
  ultimately show ?thesis using True by (simp add: trunc_def)
next
  case False
  then have "\<lceil>y\<rceil> \<le> 0" by (simp add: ceiling_le_iff)
  then have "of_int \<lceil>y\<rceil> \<le> (0::rat)" by simp
  moreover have "y \<le> of_int \<lceil>y\<rceil>" by linarith
  ultimately show ?thesis using False by (simp add: trunc_def)
qed

text \<open>
  Up to \<open>2^21\<close> in magnitude \<open>round2\<close> returns the float64 nearest to a decimal with two
  places, \<open>k / 100\<close>, which lies within half a hundredth of the argument (and what three
  roundings add).
\<close>

lemma round2_decimal:
  assumes "\<bar>s\<bar> \<le> pow2 21"
  shows "\<exists>k z. round2 oor (Fin s) = Fin z \<and> rnd (of_int k / 100) = Fin z
           \<and> \<bar>of_int k / 100 - s\<bar> \<le> 1 / 200 + pow2 (- 30)
           \<and> \<bar>z - s\<bar> \<le> 1 / 200 + pow2 (- 28)"
proof -
  have "\<bar>s * 100\<bar> = \<bar>s\<bar> * 100" by (simp add: abs_mult)
  also have "\<dots> \<le> pow2 21 * 100" using assms by simp
  also have "\<dots> \<le> pow2 28" by (simp add: pow2_def)
  finally have "\<bar>s * 100\<bar> \<le> pow2 28" .
  then obtain x where x: "rnd (s * 100) = Fin x" and xe: "\<bar>x - s * 100\<bar> \<le> pow2 (28 - 53)"
    and xb: "\<bar>x\<bar> \<le> pow2 28"
    using rnd_err [of "s * 100" 28] by auto
  define h where "h = (if x < 0 then x - 1 / 2 else x + 1 / 2)"
  have "\<bar>h\<bar> \<le> \<bar>x\<bar> + 1 / 2" by (simp add: h_def)
  also have "\<dots> \<le> pow2 28 + 1 / 2" using xb by simp
  also have "\<dots> \<le> pow2 29" by (simp add: pow2_def)
  finally have "\<bar>h\<bar> \<le> pow2 29" .
  then obtain y where y: "rnd h = Fin y" and ye: "\<bar>y - h\<bar> \<le> pow2 (29 - 53)"
    and yb: "\<bar>y\<bar> \<le> pow2 29" and ypos: "0 \<le> h \<longrightarrow> 0 \<le> y" and yneg: "h \<le> 0 \<longrightarrow> y \<le> 0"
    using rnd_err [of h 29] by auto
  define k where "k = trunc y"
  have "\<bar>of_int k :: rat\<bar> \<le> pow2 29" using trunc_abs_le [of y] yb by (simp add: k_def)
  then have "(of_int \<bar>k\<bar> :: rat) \<le> of_int (2 ^ 29)" by (simp add: pow2_def)
  then have kb: "\<bar>k\<bar> \<le> 2 ^ 29" by (simp only: of_int_le_iff)
  then have k53: "\<bar>k\<bar> < 2 ^ 53" by simp
  have k63: "- (2 ^ 63) \<le> k" "k < 2 ^ 63" using kb by simp_all
  have mr: "mathRound oor (Fin x) = Fin (of_int k)"
    using mathRound_Fin [of x y oor] y k63 rnd_of_int [OF k53] by (simp add: h_def k_def)
  have kerr: "\<bar>of_int k - s * 100\<bar> \<le> 1 / 2 + pow2 (- 24) + pow2 (- 25)"
  proof (cases "x < 0")
    case True
    then have hh: "h = x - 1 / 2" "h \<le> 0" by (simp_all add: h_def)
    then have "y \<le> 0" using yneg by simp
    then have "y \<le> of_int k" "of_int k < y + 1" using trunc_err [of y] by (simp_all add: k_def)
    then show ?thesis using ye xe hh(1) by (simp add: abs_le_iff) 
  next
    case False
    then have hh: "h = x + 1 / 2" "0 \<le> h" by (simp_all add: h_def)
    then have "0 \<le> y" using ypos by simp
    then have "of_int k \<le> y" "y < of_int k + 1" using trunc_err [of y] by (simp_all add: k_def)
    then show ?thesis using ye xe hh(1) by (simp add: abs_le_iff)
  qed
  have "\<bar>rat_of_int k / 100\<bar> = \<bar>of_int k\<bar> / 100" by simp
  also have "\<dots> \<le> pow2 29 / 100"
    using \<open>\<bar>of_int k :: rat\<bar> \<le> pow2 29\<close> by (intro divide_right_mono) simp_all
  also have "\<dots> \<le> pow2 23" by (simp add: pow2_def)
  finally have "\<bar>rat_of_int k / 100\<bar> \<le> pow2 23" .
  then obtain z where z: "rnd (of_int k / 100) = Fin z" and ze: "\<bar>z - of_int k / 100\<bar> \<le> pow2 (23 - 53)"
    using rnd_err [of "of_int k / 100" 23] by auto
  have r: "round2 oor (Fin s) = Fin z"
    by (simp add: round2_def x mr z)
  have "of_int k / 100 - s = (of_int k - s * 100) / 100" by (simp add: field_simps)
  moreover have "\<bar>(of_int k - s * 100) / 100\<bar> = \<bar>of_int k - s * 100\<bar> / 100"
    by simp
  ultimately have "\<bar>of_int k / 100 - s\<bar> = \<bar>of_int k - s * 100\<bar> / 100" by (simp only:)
  also have "\<dots> \<le> (1 / 2 + pow2 (- 24) + pow2 (- 25)) / 100"
    using kerr by (intro divide_right_mono) simp_all
  finally have ks: "\<bar>of_int k / 100 - s\<bar> \<le> (1 / 2 + pow2 (- 24) + pow2 (- 25)) / 100" .
  have "\<bar>z - s\<bar> \<le> \<bar>z - of_int k / 100\<bar> + \<bar>of_int k / 100 - s\<bar>" by linarith
  also have "\<dots> \<le> pow2 (- 30) + (1 / 2 + pow2 (- 24) + pow2 (- 25)) / 100"
  proof -
    have "\<bar>z - of_int k / 100\<bar> \<le> pow2 (- 30)" using ze by simp
    then show ?thesis using ks by (rule add_mono)
  qed
  also have "\<dots> \<le> 1 / 200 + pow2 (- 28)" by (simp add: pow2_def)
  finally have zs: "\<bar>z - s\<bar> \<le> 1 / 200 + pow2 (- 28)" .
  have "(1 / 2 + pow2 (- 24) + pow2 (- 25)) / 100 \<le> 1 / 200 + pow2 (- 30)"
    by (simp add: pow2_def)
  with ks have "\<bar>of_int k / 100 - s\<bar> \<le> 1 / 200 + pow2 (- 30)" by linarith
  with r z zs show ?thesis by blast
qed

lemma round2_err:
  assumes "\<bar>s\<bar> \<le> pow2 21"
  shows "\<exists>z. round2 oor (Fin s) = Fin z \<and> \<bar>z - s\<bar> \<le> 1 / 200 + pow2 (- 28)"
  using round2_decimal [OF assms, of oor] by blast

lemma isFin_valof: "isFin x \<Longrightarrow> x = Fin (valof x)"
  by (cases x) (simp_all add: isFin_def valof_def)

lemma map_Fin_valof:
  "\<forall>a \<in> set items. isFin (EmissionKg a) \<Longrightarrow>
     map EmissionKg items = map Fin (map (\<lambda>a. valof (EmissionKg a)) items)"
  by (induction items) (auto simp add: isFin_valof)

lemma sum_list_filter_le:
  fixes g :: "'a \<Rightarrow> rat"
  assumes "\<And>x. 0 \<le> g x"
  shows "sum_list (map g (filter P xs)) \<le> sum_list (map g xs)"
  using assms by (induction xs) (auto simp add: add_increasing)

lemma sum_by_category:
  fixes f :: "Activity \<Rightarrow> rat"
  assumes "finite C" "Category ` set items \<subseteq> C"
  shows "(\<Sum>c\<in>C. sum_list (map f (filter (\<lambda>a. Category a = c) items))) = sum_list (map f items)"
  using assms(2)
proof (induction items)
  case Nil
  then show ?case by simp
next
  case (Cons a items)
  have "(\<Sum>c\<in>C. sum_list (map f (filter (\<lambda>b. Category b = c) (a # items))))
      = (\<Sum>c\<in>C. (if Category a = c then f a else 0)
            + sum_list (map f (filter (\<lambda>b. Category b = c) items)))"
    by (intro sum.cong) simp_all
  also have "\<dots> = (\<Sum>c\<in>C. (if Category a = c then f a else 0))
      + (\<Sum>c\<in>C. sum_list (map f (filter (\<lambda>b. Category b = c) items)))"
    by (simp add: sum.distrib)
  also have "(\<Sum>c\<in>C. (if Category a = c then f a else 0)) = f a"
    using assms(1) Cons.prems by simp
  finally show ?case using Cons by simp
qed

text \<open>The float64 sum and its rounding, for a bounded sequence of finite emissions.\<close>

lemma rounded_sum_err:
  assumes "\<forall>a \<in> set items. isFin (EmissionKg a)"
    and "sum_list (map (\<lambda>a. \<bar>valof (EmissionKg a)\<bar>) items) \<le> 2 ^ 20"
    and "length items \<le> 2 ^ 20"
  shows "\<exists>z. round2 oor (fsum (map EmissionKg items)) = Fin z
      \<and> \<bar>z - sum_list (map (\<lambda>a. valof (EmissionKg a)) items)\<bar>
          \<le> 1 / 200 + pow2 (- 28) + of_nat (length items) * pow2 (- 32)"
proof -
  define xs where "xs = map (\<lambda>a. valof (EmissionKg a)) items"
  have m: "map EmissionKg items = map Fin xs"
    unfolding xs_def using assms(1) by (rule map_Fin_valof)
  have ab: "sum_list (map abs xs) \<le> 2 ^ 20" using assms(2) by (simp add: xs_def comp_def)
  have ln: "length xs \<le> 2 ^ 20" using assms(3) by (simp add: xs_def)
  obtain s where s: "foldl fadd (Fin 0) (map Fin xs) = Fin s"
    and e: "\<bar>s - sum_list xs\<bar> \<le> of_nat (length xs) * pow2 (- 32)"
    using foldl_fadd_err [OF ab ln] by blast
  have n: "(of_nat (length xs) :: rat) \<le> 2 ^ 20"
    using ln by (metis of_nat_le_iff of_nat_numeral of_nat_power)
  have "of_nat (length xs) * pow2 (- 32) \<le> 2 ^ 20 * pow2 (- 32)"
    using n pow2_pos [of "- 32"] by (intro mult_right_mono) simp_all
  also have "\<dots> \<le> 1" by (simp add: pow2_def)
  finally have e1: "\<bar>s - sum_list xs\<bar> \<le> 1" using e by linarith
  have "\<bar>sum_list xs\<bar> \<le> sum_list (map abs xs)" by (rule sum_list_abs)
  then have "\<bar>s\<bar> \<le> 1 + 2 ^ 20" using e1 ab by linarith
  also have "\<dots> \<le> pow2 21" by (simp add: pow2_def)
  finally have "\<bar>s\<bar> \<le> pow2 21" .
  then obtain z where z: "round2 oor (Fin s) = Fin z" and ze: "\<bar>z - s\<bar> \<le> 1 / 200 + pow2 (- 28)"
    using round2_err by blast
  have "\<bar>z - sum_list xs\<bar> \<le> \<bar>z - s\<bar> + \<bar>s - sum_list xs\<bar>" by linarith
  then have "\<bar>z - sum_list xs\<bar> \<le> 1 / 200 + pow2 (- 28) + of_nat (length xs) * pow2 (- 32)"
    using ze e by linarith
  moreover have "round2 oor (fsum (map EmissionKg items)) = Fin z"
    by (simp add: fsum_def m s z)
  ultimately show ?thesis by (auto simp add: xs_def)
qed

lemma sum_list_ones: "sum_list (map (\<lambda>a. 1 :: rat) xs) = of_nat (length xs)"
  by (induction xs) simp_all

lemma category_tolerance:
  assumes fin: "\<forall>a \<in> set items. isFin (EmissionKg a)"
    and ab: "sum_list (map (\<lambda>a. \<bar>valof (EmissionKg a)\<bar>) items) \<le> 2 ^ 20"
    and ln: "length items \<le> 2 ^ 20"
  shows "\<bar>(\<Sum>c \<in> Category ` set items. valof (get0 (ByCategory (summarize oor from to items)) c))
          - valof (TotalKg (summarize oor from to items))\<bar>
         \<le> of_nat (card (Category ` set items)) / 100"
proof -
  define C where "C = Category ` set items"
  define R where "R = summarize oor from to items"
  define v where "v = (\<lambda>a :: Activity. valof (EmissionKg a))"
  define L where "L = (\<lambda>c. filter (\<lambda>a. Category a = c) items)"
  define T where "T = (\<lambda>c. sum_list (map v (L c)))"
  define zc where "zc = (\<lambda>c. valof (get0 (ByCategory R) c))"
  define eps where "eps = pow2 (- 32)"
  define eta where "eta = 1 / 200 + pow2 (- 28)"
  have finC: "finite C" by (simp add: C_def)
  have bc: "ByCategory R c = Some (round2 oor (fsum (map EmissionKg (L c))))" if "c \<in> C" for c
    using that by (simp add: R_def C_def L_def summarize_ByCategory)
  have tk: "TotalKg R = round2 oor (fsum (map EmissionKg items))"
    by (simp add: R_def summarize_TotalKg)
  have per: "\<bar>zc c - T c\<bar> \<le> eta + of_nat (length (L c)) * eps" if "c \<in> C" for c
  proof -
    have 1: "\<forall>a \<in> set (L c). isFin (EmissionKg a)" using fin by (simp add: L_def)
    have "sum_list (map (\<lambda>a. \<bar>valof (EmissionKg a)\<bar>) (L c))
        \<le> sum_list (map (\<lambda>a. \<bar>valof (EmissionKg a)\<bar>) items)"
      unfolding L_def by (rule sum_list_filter_le) simp
    then have 2: "sum_list (map (\<lambda>a. \<bar>valof (EmissionKg a)\<bar>) (L c)) \<le> 2 ^ 20"
      using ab by linarith
    have "length (L c) \<le> length items" by (simp add: L_def)
    then have 3: "length (L c) \<le> 2 ^ 20" using ln by linarith
    from rounded_sum_err [OF 1 2 3, of oor]
    obtain z where z: "round2 oor (fsum (map EmissionKg (L c))) = Fin z"
      and e: "\<bar>z - sum_list (map (\<lambda>a. valof (EmissionKg a)) (L c))\<bar>
          \<le> 1 / 200 + pow2 (- 28) + of_nat (length (L c)) * pow2 (- 32)"
      by blast
    have "zc c = z" using bc [OF that] z by (simp add: zc_def get0_def valof_def)
    then show ?thesis using e by (simp add: T_def v_def eta_def eps_def)
  qed
  from rounded_sum_err [OF fin ab ln, of oor]
  obtain z where z: "round2 oor (fsum (map EmissionKg items)) = Fin z"
    and ze: "\<bar>z - sum_list (map v items)\<bar> \<le> eta + of_nat (length items) * eps"
    by (auto simp add: v_def eta_def eps_def)
  have vz: "valof (TotalKg R) = z" by (simp add: tk z valof_def)
  have sT: "(\<Sum>c\<in>C. T c) = sum_list (map v items)"
    unfolding T_def L_def using finC by (intro sum_by_category) (simp_all add: C_def)
  have "(\<Sum>c\<in>C. sum_list (map (\<lambda>a :: Activity. 1 :: rat) (L c))) = sum_list (map (\<lambda>a. 1) items)"
    unfolding L_def using finC by (intro sum_by_category) (simp_all add: C_def)
  then have sn: "(\<Sum>c\<in>C. (of_nat (length (L c)) :: rat)) = of_nat (length items)"
    by (simp add: sum_list_ones)
  have n: "(of_nat (length items) :: rat) \<le> 2 ^ 20"
    using ln by (metis of_nat_le_iff of_nat_numeral of_nat_power)
  have "of_nat (length items) * eps \<le> 2 ^ 20 * eps"
    unfolding eps_def using n pow2_pos [of "- 32"] by (intro mult_right_mono) simp_all
  then have ne: "of_nat (length items) * eps \<le> 1 / 4096" by (simp add: eps_def pow2_def)
  have et: "eta \<le> 1 / 200 + 1 / 100000" by (simp add: eta_def pow2_def)
  have "(\<Sum>c\<in>C. zc c) - z = (\<Sum>c\<in>C. zc c - T c) + (sum_list (map v items) - z)"
    by (simp add: sum_subtractf sT)
  then have "\<bar>(\<Sum>c\<in>C. zc c) - z\<bar> \<le> \<bar>\<Sum>c\<in>C. zc c - T c\<bar> + \<bar>sum_list (map v items) - z\<bar>"
    by linarith
  also have "\<bar>\<Sum>c\<in>C. zc c - T c\<bar> \<le> (\<Sum>c\<in>C. \<bar>zc c - T c\<bar>)" by (rule sum_abs)
  also have "(\<Sum>c\<in>C. \<bar>zc c - T c\<bar>) \<le> (\<Sum>c\<in>C. eta + of_nat (length (L c)) * eps)"
    using per by (intro sum_mono) simp
  also have "\<dots> = of_nat (card C) * eta + of_nat (length items) * eps"
    by (simp add: sum.distrib sum_distrib_right [symmetric] sn)
  finally have gen: "\<bar>(\<Sum>c\<in>C. zc c) - z\<bar>
      \<le> of_nat (card C) * eta + of_nat (length items) * eps + \<bar>sum_list (map v items) - z\<bar>"
    by simp
  have goal: "\<bar>(\<Sum>c\<in>C. zc c) - z\<bar> \<le> of_nat (card C) / 100"
  proof -
    consider "card C = 0" | "card C = 1" | "2 \<le> card C" by linarith
    then show ?thesis
    proof cases
      case 1
      then have "C = {}" using finC by simp
      then have "items = []" by (simp add: C_def)
      then have "z = 0" using z by (simp add: fsum_def round2_small_int)
      then show ?thesis using \<open>C = {}\<close> by simp
    next
      case 2
      then obtain c where c: "C = {c}" by (auto simp add: card_1_singleton_iff)
      then have "\<forall>a \<in> set items. Category a = c" by (auto simp add: C_def)
      then have "L c = items" by (simp add: L_def)
      then have "zc c = z" using bc [of c] c z by (simp add: zc_def get0_def valof_def)
      then show ?thesis using c by simp
    next
      case 3
      then have k: "(2::rat) \<le> of_nat (card C)" by (metis of_nat_le_iff of_nat_numeral)
      have "\<bar>sum_list (map v items) - z\<bar> \<le> eta + of_nat (length items) * eps"
        using ze by (simp add: abs_minus_commute)
      then have "\<bar>(\<Sum>c\<in>C. zc c) - z\<bar>
          \<le> of_nat (card C) * eta + eta + 2 * (1 / 4096)"
        using gen ne by linarith
      also have "\<dots> \<le> of_nat (card C) * (1 / 200 + 1 / 100000) + (1 / 200 + 1 / 100000) + 2 * (1 / 4096)"
        using et k by (intro add_mono mult_left_mono) simp_all
      also have "\<dots> \<le> of_nat (card C) / 100" using k by (simp add: field_simps)
      finally show ?thesis .
    qed
  qed
  then show ?thesis by (simp add: C_def zc_def R_def vz [unfolded R_def])
qed

section \<open>Rounding in the rows of the factor table\<close>






section \<open>The claims about the emission calculator\<close>




text \<open>
  Claim C2. \<open>computeEmission\<close> is total and never fails: for every category, type, unit
  and quantity (infinities and NaN included) it returns a finite float64. For a category
  and type that, lowercased by \<open>strings.ToLower\<close>, are not in the factor table (the
  category is neither shopping nor other, and the pair is none of the eleven pairs of the
  table) it returns exactly 0.0. This holds whatever the library's lowering does on
  strings with bytes from 0x80 on.
\<close>

theorem C2_total_zero_default:
  "(\<exists>r. computeEmission lo oor c t q u m = Fin r) \<and>
   (ToLower lo c \<notin> {''shopping'', ''other''} \<and>
    (ToLower lo c, ToLower lo t) \<notin>
      {(''transport'', ''car''), (''transport'', ''bus''), (''transport'', ''train''),
       (''transport'', ''bike''), (''transport'', ''walk''), (''transport'', ''flight''),
       (''energy'', ''electricity''), (''energy'', ''lpg''), (''food'', ''meat_heavy_day''),
       (''food'', ''vegetarian_day''), (''food'', ''vegan_day'')}
    \<longrightarrow> computeEmission lo oor c t q u m = Fin 0)"
proof
  show "\<exists>r. computeEmission lo oor c t q u m = Fin r" by (rule computeEmission_finite)
  show "ToLower lo c \<notin> {''shopping'', ''other''} \<and>
    (ToLower lo c, ToLower lo t) \<notin>
      {(''transport'', ''car''), (''transport'', ''bus''), (''transport'', ''train''),
       (''transport'', ''bike''), (''transport'', ''walk''), (''transport'', ''flight''),
       (''energy'', ''electricity''), (''energy'', ''lpg''), (''food'', ''meat_heavy_day''),
       (''food'', ''vegetarian_day''), (''food'', ''vegan_day'')}
    \<longrightarrow> computeEmission lo oor c t q u m = Fin 0"
    by (simp add: computeEmission_def Let_def)
qed

theorem C2_witness:
  "ToLower lowerU_example ''Transport'' \<notin> {''shopping'', ''other''} \<and>
   (ToLower lowerU_example ''Transport'', ToLower lowerU_example ''Boat'') \<notin>
      {(''transport'', ''car''), (''transport'', ''bus''), (''transport'', ''train''),
       (''transport'', ''bike''), (''transport'', ''walk''), (''transport'', ''flight''),
       (''energy'', ''electricity''), (''energy'', ''lpg''), (''food'', ''meat_heavy_day''),
       (''food'', ''vegetarian_day''), (''food'', ''vegan_day'')} \<and>
   computeEmission lowerU_example oor_amd64 ''Transport'' ''Boat'' (Fin 12) ''km'' () = Fin 0"
proof -
  have l: "ToLower lowerU_example ''Transport'' = ''transport''"
    "ToLower lowerU_example ''Boat'' = ''boat''"
    by code_simp+
  show ?thesis
    using C2_total_zero_default [of lowerU_example oor_amd64 "''Transport''" "''Boat''" "Fin 12"
        "''km''" "()"]
    by (simp add: l)
qed

text \<open>
  Claim C3. For a category that lowercases to other, every type and every quantity \<open>q\<close>,
  \<open>computeEmission\<close> returns \<open>round2 q\<close> when the lowercased unit is kg or kgco2e, and 0.0
  for every other unit; for every other category the result is the same for any two
  units. The worked examples: 5 with unit kgco2e gives 5.0, 5 with unit usd gives 0.0.
  Lowercasing is that of \<open>strings.ToLower\<close>, whatever it does on strings with bytes from
  0x80 on: a unit written with the Kelvin sign, which the library lowers to kg, counts as
  kg.
\<close>

theorem C3_unit_only_for_other:
  "(ToLower lo c = ''other'' \<longrightarrow> computeEmission lo oor c t q u m =
      (if ToLower lo u = ''kg'' \<or> ToLower lo u = ''kgco2e'' then round2 oor q else Fin 0))
   \<and> (ToLower lo c \<noteq> ''other'' \<longrightarrow>
        computeEmission lo oor c t q u m = computeEmission lo oor c t q u' m)
   \<and> computeEmission lo oor ''other'' t (Fin 5) ''kgco2e'' m = Fin 5
   \<and> computeEmission lo oor ''other'' t (Fin 5) ''usd'' m = Fin 0"
proof -
  have l: "ToLower lo ''usd'' = ''usd''"
    by (simp add: ToLower_def isASCII_def toLowerByte_def)
  have "computeEmission lo oor ''other'' t (Fin 5) ''kgco2e'' m = Fin 5"
    by (simp add: computeEmission_other ToLower_lits round2_small_int)
  moreover have "computeEmission lo oor ''other'' t (Fin 5) ''usd'' m = Fin 0"
    by (simp add: computeEmission_other ToLower_lits l)
  ultimately show ?thesis
    using computeEmission_other [where lo = lo and c = c and oor = oor and t = t and q = q
        and u = u and m = m]
      computeEmission_unit [where lo = lo and c = c and oor = oor and t = t and q = q
        and u = u and m = m and u' = u']
    by blast
qed

theorem C3_witness:
  "ToLower lowerU_example ''Other'' = ''other''
   \<and> computeEmission lowerU_example oor_amd64 ''Other'' ''custom'' (Fin 5) ''KG'' () = Fin 5
   \<and> computeEmission lowerU_example oor_amd64 ''Other'' ''custom'' (Fin 5) kelvin_g () = Fin 5
   \<and> ToLower lowerU_example ''Food'' \<noteq> ''other''
   \<and> computeEmission lowerU_example oor_amd64 ''Food'' ''vegan_day'' (Fin 1) ''day'' ()
       = computeEmission lowerU_example oor_amd64 ''Food'' ''vegan_day'' (Fin 1) ''kg'' ()"
proof -
  have l: "ToLower lowerU_example ''Other'' = ''other''" "ToLower lowerU_example ''KG'' = ''kg''"
    "ToLower lowerU_example ''Food'' = ''food''"
    by code_simp+
  note k = unicode_lower(1)
  show ?thesis
    using C3_unit_only_for_other [where lo = lowerU_example and c = "''Other''"
        and oor = oor_amd64 and t = "''custom''" and q = "Fin 5" and u = "''KG''" and m = "()"
        and u' = "''KG''"]
      C3_unit_only_for_other [where lo = lowerU_example and c = "''Other''"
        and oor = oor_amd64 and t = "''custom''" and q = "Fin 5" and u = kelvin_g and m = "()"
        and u' = kelvin_g]
      C3_unit_only_for_other [where lo = lowerU_example and c = "''Food''"
        and oor = oor_amd64 and t = "''vegan_day''" and q = "Fin 1" and u = "''day''"
        and m = "()" and u' = "''kg''"]
    by (simp add: l k round2_small_int)
qed

text \<open>
  Claim C4, as amended. \<open>round2 v\<close> is \<open>mathRound\<close> of the float64 product \<open>v * 100.0\<close>,
  divided by 100.0. \<open>mathRound\<close> rounds to the nearest integer with halves away from
  zero whenever adding (for a negative argument: subtracting) 0.5 is exact in float64
  and the magnitude is below \<open>2^52\<close>. So a value whose hundredfold is an exact half is
  rounded away from zero, 0.125 to 0.13 and -0.125 to -0.13, where banker's rounding and
  truncation give 0.12. The product is rounded before \<open>mathRound\<close> sees it: 1.005 * 100.0
  is 100.49999999999999 in float64, and \<open>round2\<close> returns 1.0 for 1.005 and -1.0 for
  -1.005. For a magnitude up to \<open>2^21\<close> the result stays within 0.005 + \<open>2^-28\<close> of
  the argument. Every value \<open>computeEmission\<close> returns is an int64 divided by 100.0.
\<close>

theorem C4_round2_half_away_on_exact_halves:
  "(\<bar>r\<bar> < 2 ^ 52 \<and>
      rnd (if r < 0 then r - 1 / 2 else r + 1 / 2) = Fin (if r < 0 then r - 1 / 2 else r + 1 / 2)
    \<longrightarrow> mathRound oor (Fin r) = Fin (of_int (round_half_away r)))
   \<and> round2 oor v = fdiv (mathRound oor (fmul v (Fin 100))) (Fin 100)
   \<and> (\<bar>s\<bar> \<le> 2 ^ 21 \<longrightarrow>
        (\<exists>z. round2 oor (Fin s) = Fin z \<and> \<bar>z - s\<bar> \<le> 1 / 200 + 1 / 2 ^ 28))
   \<and> round2 oor (Fin (1 / 8)) = rnd (13 / 100) \<and> round2 oor (Fin (- (1 / 8))) = rnd (- (13 / 100))
   \<and> rnd (13 / 100) \<noteq> rnd (12 / 100)
   \<and> round2 oor (rnd (201 / 200)) = Fin 1 \<and> round2 oor (rnd (- (201 / 200))) = Fin (- 1)
   \<and> (\<exists>k. computeEmission lo oor c t q u m = fdiv (float64_of_int64 k) (Fin 100))"
proof (intro conjI impI)
  assume "\<bar>r\<bar> < 2 ^ 52 \<and>
      rnd (if r < 0 then r - 1 / 2 else r + 1 / 2) = Fin (if r < 0 then r - 1 / 2 else r + 1 / 2)"
  then show "mathRound oor (Fin r) = Fin (of_int (round_half_away r))"
    using mathRound_exact_half_away [of r oor] by blast
next
  assume "\<bar>s\<bar> \<le> 2 ^ 21"
  then have "\<bar>s\<bar> \<le> pow2 21" by (simp add: pow2_def)
  then show "\<exists>z. round2 oor (Fin s) = Fin z \<and> \<bar>z - s\<bar> \<le> 1 / 200 + 1 / 2 ^ 28"
    using round2_err [of s oor] by (simp add: pow2_def)
next
  show "round2 oor v = fdiv (mathRound oor (fmul v (Fin 100))) (Fin 100)"
    by (rule round2_def)
  show "round2 oor (Fin (1 / 8)) = rnd (13 / 100)" by (rule round2_0_125)
  show "round2 oor (Fin (- (1 / 8))) = rnd (- (13 / 100))" by (rule round2_0_125)
  show "rnd (13 / 100) \<noteq> rnd (12 / 100)" by (rule hundredths_differ)
  show "round2 oor (rnd (201 / 200)) = Fin 1" by (simp only: lit_1_005 round2_1_005)
  show "round2 oor (rnd (- (201 / 200))) = Fin (- 1)" by (simp only: lit_1_005 round2_1_005)
  show "\<exists>k. computeEmission lo oor c t q u m = fdiv (float64_of_int64 k) (Fin 100)"
    by (rule computeEmission_hundredths)
qed

theorem C4_witness:
  "\<bar>25 / 2 :: rat\<bar> < 2 ^ 52 \<and> rnd (25 / 2 + 1 / 2) = Fin (25 / 2 + 1 / 2)
   \<and> mathRound oor_amd64 (Fin (25 / 2)) = Fin 13
   \<and> \<bar>- (25 / 2) :: rat\<bar> < 2 ^ 52 \<and> rnd (- (25 / 2) - 1 / 2) = Fin (- (25 / 2) - 1 / 2)
   \<and> mathRound oor_amd64 (Fin (- (25 / 2))) = Fin (- 13)
   \<and> \<bar>201 / 200 :: rat\<bar> \<le> 2 ^ 21
   \<and> (\<exists>z. round2 oor_amd64 (Fin (201 / 200)) = Fin z \<and> \<bar>z - 201 / 200\<bar> \<le> 1 / 200 + 1 / 2 ^ 28)"
proof -
  have e: "rnd 13 = Fin 13" "rnd (- 13) = Fin (- 13)"
    using rnd_of_int [of 13] rnd_of_int [of "- 13"] by simp_all
  have h: "round_half_away (25 / 2) = 13" "round_half_away (- (25 / 2)) = - 13"
    by (simp_all add: round_half_away_def rnd_simps)
  have b: "\<bar>201 / 200 :: rat\<bar> \<le> 2 ^ 21" "\<bar>25 / 2 :: rat\<bar> \<le> 2 ^ 21" by simp_all
  note t1 = C4_round2_half_away_on_exact_halves [where r = "25 / 2" and oor = oor_amd64
        and v = "Fin 0" and c = "[]" and t = "[]" and q = "Fin 0" and u = "[]" and m = "()"
        and s = "201 / 200"]
  note t2 = C4_round2_half_away_on_exact_halves [where r = "- (25 / 2)" and oor = oor_amd64
        and v = "Fin 0" and c = "[]" and t = "[]" and q = "Fin 0" and u = "[]" and m = "()"
        and s = "201 / 200"]
  have 1: "mathRound oor_amd64 (Fin (25 / 2)) = Fin 13"
    using t1 by (simp add: e h)
  have 2: "mathRound oor_amd64 (Fin (- (25 / 2))) = Fin (- 13)"
    using t2 by (simp add: e h)
  have 3: "\<exists>z. round2 oor_amd64 (Fin (201 / 200)) = Fin z \<and> \<bar>z - 201 / 200\<bar> \<le> 1 / 200 + 1 / 2 ^ 28"
    using t1 b(1) by blast
  have 4: "rnd (25 / 2 + 1 / 2) = Fin (25 / 2 + 1 / 2)"
    "rnd (- (25 / 2) - 1 / 2) = Fin (- (25 / 2) - 1 / 2)"
    by (simp_all add: e)
  from 1 2 3 4 show ?thesis by simp
qed

text \<open>
  Claim C4 as stated says that \<open>round2\<close> of 1.005 is 1.01. It is 1.0.
\<close>

theorem C4_counterexample:
  "round2 oor_amd64 (rnd (201 / 200)) \<noteq> rnd (101 / 100)"
  by (simp only: lit_1_005 round2_1_005 lit_1_01) simp

text \<open>
  Claim C5. \<open>computeEmission\<close> does not see the letter case of its strings: two calls
  whose categories, types and units have the same lowercase forms (those
  \<open>strings.ToLower\<close> gives) return the same result. A call on strings with bytes below
  0x80 only, and more generally on strings for which lowering a second time changes
  nothing, returns what the call on the three lowercased strings returns.
\<close>

theorem C5_case_insensitive:
  "(ToLower lo c = ToLower lo c' \<and> ToLower lo t = ToLower lo t' \<and> ToLower lo u = ToLower lo u' \<longrightarrow>
      computeEmission lo oor c t q u m = computeEmission lo oor c' t' q u' m)
   \<and> (list_all isASCII c \<and> list_all isASCII t \<and> list_all isASCII u \<longrightarrow>
        computeEmission lo oor c t q u m
          = computeEmission lo oor (ToLower lo c) (ToLower lo t) q (ToLower lo u) m)
   \<and> (ToLower lo (ToLower lo c) = ToLower lo c \<and> ToLower lo (ToLower lo t) = ToLower lo t
        \<and> ToLower lo (ToLower lo u) = ToLower lo u \<longrightarrow>
        computeEmission lo oor c t q u m
          = computeEmission lo oor (ToLower lo c) (ToLower lo t) q (ToLower lo u) m)"
proof (intro conjI impI)
  assume "ToLower lo c = ToLower lo c' \<and> ToLower lo t = ToLower lo t' \<and> ToLower lo u = ToLower lo u'"
  then show "computeEmission lo oor c t q u m = computeEmission lo oor c' t' q u' m"
    using computeEmission_cong [where lo = lo and c = c and c' = c' and t = t and t' = t'
        and u = u and u' = u' and oor = oor and q = q and m = m]
    by blast
next
  assume "list_all isASCII c \<and> list_all isASCII t \<and> list_all isASCII u"
  then show "computeEmission lo oor c t q u m
      = computeEmission lo oor (ToLower lo c) (ToLower lo t) q (ToLower lo u) m"
    by (intro computeEmission_lower ToLower_idem_ASCII) simp_all
next
  assume "ToLower lo (ToLower lo c) = ToLower lo c \<and> ToLower lo (ToLower lo t) = ToLower lo t
        \<and> ToLower lo (ToLower lo u) = ToLower lo u"
  then show "computeEmission lo oor c t q u m
      = computeEmission lo oor (ToLower lo c) (ToLower lo t) q (ToLower lo u) m"
    by (intro computeEmission_lower) simp_all
qed

theorem C5_witness:
  "(ToLower lowerU_example ''Other'' = ToLower lowerU_example ''oTHER''
      \<and> ToLower lowerU_example ''Custom'' = ToLower lowerU_example ''custom''
      \<and> ToLower lowerU_example kelvin_g = ToLower lowerU_example ''Kg'')
   \<and> computeEmission lowerU_example oor_amd64 ''Other'' ''Custom'' (Fin 5) kelvin_g ()
       = computeEmission lowerU_example oor_amd64 ''oTHER'' ''custom'' (Fin 5) ''Kg'' ()
   \<and> (list_all isASCII ''Transport'' \<and> list_all isASCII ''CAR'' \<and> list_all isASCII ''KM'')
   \<and> computeEmission lowerU_example oor_amd64 ''Transport'' ''CAR'' (Fin 20) ''KM'' ()
       = computeEmission lowerU_example oor_amd64 ''transport'' ''car'' (Fin 20) ''km'' ()
   \<and> (ToLower lowerU_example (ToLower lowerU_example ''Other'') = ToLower lowerU_example ''Other''
      \<and> ToLower lowerU_example (ToLower lowerU_example ''Custom'')
          = ToLower lowerU_example ''Custom''
      \<and> ToLower lowerU_example (ToLower lowerU_example kelvin_g) = ToLower lowerU_example kelvin_g)
   \<and> computeEmission lowerU_example oor_amd64 ''Other'' ''Custom'' (Fin 5) kelvin_g ()
       = computeEmission lowerU_example oor_amd64 ''other'' ''custom'' (Fin 5) ''kg'' ()
   \<and> computeEmission lowerU_example oor_amd64 ''transport'' ''car'' (Fin 20) ''km'' ()
       = rnd (384 / 100)
   \<and> computeEmission lowerU_example oor_amd64 ''other'' ''custom'' (Fin 5) ''kg'' () = Fin 5
   \<and> (ToLower lowerU_example ''transport'' = ToLower lowerU_example ''transport''
      \<and> ToLower lowerU_example tra_I_dot_n = ToLower lowerU_example ''train''
      \<and> ToLower lowerU_example ''km'' = ToLower lowerU_example ''km'')
   \<and> computeEmission lowerU_example oor_amd64 ''transport'' tra_I_dot_n (Fin 100) ''km'' ()
       = computeEmission lowerU_example oor_amd64 ''transport'' ''train'' (Fin 100) ''km'' ()
   \<and> computeEmission lowerU_example oor_amd64 ''transport'' ''train'' (Fin 100) ''km'' ()
       = rnd (41 / 10)"
proof -
  have l: "ToLower lowerU_example ''Other'' = ''other''"
    "ToLower lowerU_example ''oTHER'' = ''other''"
    "ToLower lowerU_example ''Custom'' = ''custom''"
    "ToLower lowerU_example ''custom'' = ''custom''"
    "ToLower lowerU_example ''Kg'' = ''kg''"
    "ToLower lowerU_example ''Transport'' = ''transport''"
    "ToLower lowerU_example ''CAR'' = ''car''"
    "ToLower lowerU_example ''KM'' = ''km''"
    by code_simp+
  note k = unicode_lower(1)
  have h1: "ToLower lowerU_example ''Other'' = ToLower lowerU_example ''oTHER''
      \<and> ToLower lowerU_example ''Custom'' = ToLower lowerU_example ''custom''
      \<and> ToLower lowerU_example kelvin_g = ToLower lowerU_example ''Kg''"
    by (simp only: l k simp_thms)
  have h2: "list_all isASCII ''Transport'' \<and> list_all isASCII ''CAR'' \<and> list_all isASCII ''KM''"
    by (simp add: isASCII_def)
  have h3: "ToLower lowerU_example (ToLower lowerU_example ''Other'') = ToLower lowerU_example ''Other''
      \<and> ToLower lowerU_example (ToLower lowerU_example ''Custom'')
          = ToLower lowerU_example ''Custom''
      \<and> ToLower lowerU_example (ToLower lowerU_example kelvin_g) = ToLower lowerU_example kelvin_g"
    by (simp only: l k ToLower_lits simp_thms)
  have v: "computeEmission lowerU_example oor_amd64 ''transport'' ''car'' (Fin 20) ''km'' ()
      = rnd (384 / 100)"
    by (simp only: computeEmission_rows car_20 round2_3_84 lit_3_84)
  have w: "computeEmission lowerU_example oor_amd64 ''other'' ''custom'' (Fin 5) ''kg'' () = Fin 5"
    by (simp add: computeEmission_other ToLower_lits round2_small_int)
  note t1 = C5_case_insensitive [where lo = lowerU_example and oor = oor_amd64
      and c = "''Other''" and t = "''Custom''" and u = kelvin_g and q = "Fin 5" and m = "()"
      and c' = "''oTHER''" and t' = "''custom''" and u' = "''Kg''"]
  note t2 = C5_case_insensitive [where lo = lowerU_example and oor = oor_amd64
      and c = "''Transport''" and t = "''CAR''" and u = "''KM''" and q = "Fin 20" and m = "()"
      and c' = "''Transport''" and t' = "''CAR''" and u' = "''KM''"]
  have h4: "ToLower lowerU_example ''transport'' = ToLower lowerU_example ''transport''
      \<and> ToLower lowerU_example tra_I_dot_n = ToLower lowerU_example ''train''
      \<and> ToLower lowerU_example ''km'' = ToLower lowerU_example ''km''"
    by (simp only: unicode_lower ToLower_lits simp_thms)
  have x: "computeEmission lowerU_example oor_amd64 ''transport'' ''train'' (Fin 100) ''km'' ()
      = rnd (41 / 10)"
    by (simp only: computeEmission_rows train_100)
  note t3 = C5_case_insensitive [where lo = lowerU_example and oor = oor_amd64
      and c = "''transport''" and t = tra_I_dot_n and u = "''km''" and q = "Fin 100" and m = "()"
      and c' = "''transport''" and t' = "''train''" and u' = "''km''"]
  note 4 = t3 [THEN conjunct1, THEN mp, OF h4]
  note 1 = t1 [THEN conjunct1, THEN mp, OF h1]
  note 2 = t2 [THEN conjunct2, THEN conjunct1, THEN mp, OF h2, unfolded l]
  note 3 = t1 [THEN conjunct2, THEN conjunct2, THEN mp, OF h3, unfolded l k]
  show ?thesis
    by (intro conjI h1 h2 h3 h4 1 2 3 4 v w x)
qed

section \<open>The claims about the summary\<close>

text \<open>
  Claim C6. The claim reads: when \<open>from\<close> is not after \<open>to\<close>, \<open>by_day\<close> holds one point
  for every calendar day from \<open>from\<close> to \<open>to\<close> inclusive, each with the sum of the records
  of its day. The handler at a request that gives \<open>to\<close> and leaves \<open>from\<close> blank: at 15:30
  on 10 August 2025, over a storage with one record of 2.0 kg dated 10 August, a summary
  up to 2025-08-10 answers \<open>from\<close> = 12 July (day 20281), \<open>to\<close> = 10 August (day 20310),
  a total of 2.0, and the points of 12 July to 9 August, all 0: the day \<open>to\<close>, on which
  the record lies, has no point. (The series is the dense one when \<open>from\<close> carries no
  later time of day than \<open>to\<close>: \<open>by_day_dense\<close>; it is empty, and nothing is fetched, when
  \<open>from\<close> is after \<open>to\<close>: \<open>summarize_after\<close>, \<open>Find_between_after\<close>.)
\<close>

theorem C6_to_day_missing:
  "summary tr oor_amd64 parse_example now_example now_example
     \<lparr>rows = [vegan_row midnight_example now_example], lastID = 1, failing = False\<rparr>
     [] ''2025-08-10''
   = Inr \<lparr>From = 20281, To = 20310, TotalKg = Fin 2, ByCategory = [''food'' \<mapsto> Fin 2],
          ByDay = map (\<lambda>k. \<lparr>Date_pt = k, Kg = Fin 0\<rparr>) [20281 .. 20309]\<rparr>"
proof -
  let ?from = "\<lparr>day = 20281, tod = 55800000000000\<rparr>"
  let ?items = "[vegan_row midnight_example now_example]"
  have s: "summary tr oor_amd64 parse_example now_example now_example
     \<lparr>rows = ?items, lastID = 1, failing = False\<rparr> [] ''2025-08-10''
      = Inr (summarize oor_amd64 ?from midnight_example ?items)"
    by (simp only: summary_def summaryRange_example Find_between_defaulted_from
        sum.case prod.case option.case)
  have f: "From (summarize oor_amd64 ?from midnight_example ?items) = 20281"
    "To (summarize oor_amd64 ?from midnight_example ?items) = 20310"
    by (simp_all add: summarize_def Format_def midnight_example_def split: prod.splits)
  have t: "TotalKg (summarize oor_amd64 ?from midnight_example ?items) = Fin 2"
    by (simp only: summarize_TotalKg vegan_row_sums fsum_two round2_small_int)
  have c: "ByCategory (summarize oor_amd64 ?from midnight_example ?items) = [''food'' \<mapsto> Fin 2]"
  proof
    fix k
    show "ByCategory (summarize oor_amd64 ?from midnight_example ?items) k = [''food'' \<mapsto> Fin 2] k"
      by (simp add: summarize_ByCategory vegan_row_def fsum_two round2_small_int)
  qed
  have l: "[day ?from .. lastDay ?from midnight_example] = [20281 .. 20309]"
    by (simp add: lastDay_def midnight_example_def)
  have z: "fsum (map EmissionKg (filter (\<lambda>a. Format (Date a) = k) ?items)) = Fin 0"
    if "k \<in> set [20281 .. 20309]" for k
  proof -
    from that have "k \<le> 20309" by (simp only: set_upto atLeastAtMost_iff)
    then show ?thesis
      by (auto simp add: vegan_row_def Format_def midnight_example_def fsum_two)
  qed
  have d: "ByDay (summarize oor_amd64 ?from midnight_example ?items)
      = map (\<lambda>k. \<lparr>Date_pt = k, Kg = Fin 0\<rparr>) [20281 .. 20309]"
    unfolding summarize_ByDay l by (rule map_cong [OF refl]) (simp only: z)
  have "summarize oor_amd64 ?from midnight_example ?items
      = \<lparr>From = 20281, To = 20310, TotalKg = Fin 2, ByCategory = [''food'' \<mapsto> Fin 2],
          ByDay = map (\<lambda>k. \<lparr>Date_pt = k, Kg = Fin 0\<rparr>) [20281 .. 20309]\<rparr>"
    using f t c d by (cases "summarize oor_amd64 ?from midnight_example ?items") simp
  with s show ?thesis by simp
qed

text \<open>
  Claim C7, as amended. For every sequence of items handed to the summary, \<open>total_kg\<close>
  is \<open>round2\<close> of the float64 sum of all emissions in the order of the items (rounded
  once, after the summation), and the bucket of a category is \<open>round2\<close> of the float64
  sum of the emissions of that category, each bucket rounded on its own. When all items
  have one category, its bucket is the only one and equals \<open>total_kg\<close>. When there are at
  most \<open>2^20\<close> items, all emissions are finite and their absolute values sum to at most
  \<open>2^20\<close> kg, the buckets sum to \<open>total_kg\<close> within 0.01 per category present. Without
  such a bound they need not: see \<open>C7_counterexample\<close>.
\<close>

theorem C7_sums_rounded_after_summation:
  "TotalKg (summarize oor from to items) = round2 oor (fsum (map EmissionKg items))
   \<and> ByCategory (summarize oor from to items) c =
       (if c \<in> Category ` set items
        then Some (round2 oor (fsum (map EmissionKg (filter (\<lambda>a. Category a = c) items))))
        else None)
   \<and> (items \<noteq> [] \<and> (\<forall>a \<in> set items. Category a = c) \<longrightarrow>
        ByCategory (summarize oor from to items) = [c \<mapsto> TotalKg (summarize oor from to items)])
   \<and> ((\<forall>a \<in> set items. isFin (EmissionKg a))
        \<and> sum_list (map (\<lambda>a. \<bar>valof (EmissionKg a)\<bar>) items) \<le> 2 ^ 20
        \<and> length items \<le> 2 ^ 20 \<longrightarrow>
        \<bar>(\<Sum>c \<in> dom (ByCategory (summarize oor from to items)).
              valof (get0 (ByCategory (summarize oor from to items)) c))
           - valof (TotalKg (summarize oor from to items))\<bar>
          \<le> of_nat (card (dom (ByCategory (summarize oor from to items)))) / 100)"
proof (intro conjI impI)
  show "TotalKg (summarize oor from to items) = round2 oor (fsum (map EmissionKg items))"
    by (rule summarize_TotalKg)
  show "ByCategory (summarize oor from to items) c =
       (if c \<in> Category ` set items
        then Some (round2 oor (fsum (map EmissionKg (filter (\<lambda>a. Category a = c) items))))
        else None)"
    by (rule summarize_ByCategory)
next
  assume h: "items \<noteq> [] \<and> (\<forall>a \<in> set items. Category a = c)"
  then have f: "filter (\<lambda>a. Category a = c) items = items" by simp
  have i: "Category ` set items = {c}" using h by (cases items) auto
  show "ByCategory (summarize oor from to items) = [c \<mapsto> TotalKg (summarize oor from to items)]"
  proof
    fix k
    show "ByCategory (summarize oor from to items) k
        = [c \<mapsto> TotalKg (summarize oor from to items)] k"
      by (simp add: summarize_ByCategory summarize_TotalKg i f)
  qed
next
  assume b: "(\<forall>a \<in> set items. isFin (EmissionKg a))
        \<and> sum_list (map (\<lambda>a. \<bar>valof (EmissionKg a)\<bar>) items) \<le> 2 ^ 20
        \<and> length items \<le> 2 ^ 20"
  have d: "dom (ByCategory (summarize oor from to items)) = Category ` set items"
    by (rule summarize_dom)
  show "\<bar>(\<Sum>c \<in> dom (ByCategory (summarize oor from to items)).
              valof (get0 (ByCategory (summarize oor from to items)) c))
           - valof (TotalKg (summarize oor from to items))\<bar>
          \<le> of_nat (card (dom (ByCategory (summarize oor from to items)))) / 100"
    unfolding d using b category_tolerance [of items oor "from" "to"] by blast
qed

theorem C7_witness:
  "food_example \<noteq> []
   \<and> Category (food_example ! 0) = ''food'' \<and> Category (food_example ! 1) = ''food''
   \<and> isFin (EmissionKg (food_example ! 0)) \<and> isFin (EmissionKg (food_example ! 1))
   \<and> \<bar>valof (EmissionKg (food_example ! 0))\<bar> + \<bar>valof (EmissionKg (food_example ! 1))\<bar> \<le> 2 ^ 20
   \<and> length food_example = 2
   \<and> ByCategory (summarize oor_amd64 midnight_example midnight_example food_example)
      = [''food'' \<mapsto> TotalKg (summarize oor_amd64 midnight_example midnight_example food_example)]
   \<and> \<bar>(\<Sum>c \<in> dom (ByCategory (summarize oor_amd64 midnight_example midnight_example food_example)).
          valof (get0 (ByCategory (summarize oor_amd64 midnight_example midnight_example
            food_example)) c))
       - valof (TotalKg (summarize oor_amd64 midnight_example midnight_example food_example))\<bar>
      \<le> of_nat (card (dom (ByCategory (summarize oor_amd64 midnight_example midnight_example
            food_example)))) / 100"
proof -
  have a: "food_example \<noteq> [] \<and> (\<forall>a \<in> set food_example. Category a = ''food'')"
    by (simp add: food_example_def example_row_def)
  have b: "(\<forall>a \<in> set food_example. isFin (EmissionKg a))
        \<and> sum_list (map (\<lambda>a. \<bar>valof (EmissionKg a)\<bar>) food_example) \<le> 2 ^ 20
        \<and> length food_example \<le> 2 ^ 20"
    by (simp add: food_example_def example_row_def isFin_def valof_def)
  note t = C7_sums_rounded_after_summation [of oor_amd64 midnight_example midnight_example
        food_example "''food''"]
  have 1: "ByCategory (summarize oor_amd64 midnight_example midnight_example food_example)
      = [''food'' \<mapsto> TotalKg (summarize oor_amd64 midnight_example midnight_example food_example)]"
    using t a by blast
  have 2: "\<bar>(\<Sum>c \<in> dom (ByCategory (summarize oor_amd64 midnight_example midnight_example food_example)).
          valof (get0 (ByCategory (summarize oor_amd64 midnight_example midnight_example
            food_example)) c))
       - valof (TotalKg (summarize oor_amd64 midnight_example midnight_example food_example))\<bar>
      \<le> of_nat (card (dom (ByCategory (summarize oor_amd64 midnight_example midnight_example
            food_example)))) / 100"
    using t b by blast
  have 3: "food_example \<noteq> []
   \<and> Category (food_example ! 0) = ''food'' \<and> Category (food_example ! 1) = ''food''
   \<and> isFin (EmissionKg (food_example ! 0)) \<and> isFin (EmissionKg (food_example ! 1))
   \<and> \<bar>valof (EmissionKg (food_example ! 0))\<bar> + \<bar>valof (EmissionKg (food_example ! 1))\<bar> \<le> 2 ^ 20
   \<and> length food_example = 2"
    by (simp add: food_example_def example_row_def isFin_def valof_def)
  from 1 2 3 show ?thesis by blast
qed

text \<open>
  Claim C7 as stated bounds the distance between the sum of the buckets and \<open>total_kg\<close>
  by 0.01 per category. Three items of 9e16 kg (other), 7 kg (food) and -9e16 kg
  (other): the running total absorbs the 7 (9e16 + 7 is 9e16 in float64) and ends at 0,
  the two buckets are 0 and 7.
\<close>

theorem C7_counterexample:
  "dom (ByCategory (summarize oor_amd64 \<lparr>day = 20308, tod = 0\<rparr> midnight_example absorb_example))
     = {''food'', ''other''}
   \<and> \<not> \<bar>valof (get0 (ByCategory (summarize oor_amd64 \<lparr>day = 20308, tod = 0\<rparr> midnight_example
                absorb_example)) ''food'')
        + valof (get0 (ByCategory (summarize oor_amd64 \<lparr>day = 20308, tod = 0\<rparr> midnight_example
                absorb_example)) ''other'')
        - valof (TotalKg (summarize oor_amd64 \<lparr>day = 20308, tod = 0\<rparr> midnight_example
                absorb_example))\<bar>
       \<le> 2 * (1 / 100)"
  by (simp add: absorb_summary get0_def valof_def)

text \<open>
  Claim C8. The claim reads: a stored record whose calendar date equals \<open>to\<close> is included
  in the summary whatever its time of day. A record created without a date at 15:30 on
  10 August 2025 is stored with that moment as its date, emission 2.0; the summary from
  2025-08-10 to 2025-08-10 fetches the rows between midnight and midnight, so the record
  is in neither \<open>total_kg\<close> nor \<open>by_category\<close> nor the point of its day.
\<close>

theorem C8_boundary_record_excluded:
  "createActivity lo tr oor_amd64 parse_example marshal_example now_example db_empty
       vegan_today
     = Inr (vegan_row now_example now_example,
          \<lparr>rows = [vegan_row now_example now_example], lastID = 1, failing = False\<rparr>)
   \<and> Format (Date (vegan_row now_example now_example)) = 20310
   \<and> EmissionKg (vegan_row now_example now_example) = Fin 2
   \<and> summary tr oor_amd64 parse_example now_example now_example
        \<lparr>rows = [vegan_row now_example now_example], lastID = 1, failing = False\<rparr>
        ''2025-08-10'' ''2025-08-10''
     = Inr \<lparr>From = 20310, To = 20310, TotalKg = Fin 0, ByCategory = Map.empty,
            ByDay = [\<lparr>Date_pt = 20310, Kg = Fin 0\<rparr>]\<rparr>"
proof (intro conjI)
  show "createActivity lo tr oor_amd64 parse_example marshal_example now_example db_empty
       vegan_today
     = Inr (vegan_row now_example now_example,
          \<lparr>rows = [vegan_row now_example now_example], lastID = 1, failing = False\<rparr>)"
    by (rule create_vegan_today)
  show "Format (Date (vegan_row now_example now_example)) = 20310"
    by (simp add: vegan_row_def now_example_def Format_def)
  show "EmissionKg (vegan_row now_example now_example) = Fin 2"
    by (simp add: vegan_row_def)
  show "summary tr oor_amd64 parse_example now_example now_example
        \<lparr>rows = [vegan_row now_example now_example], lastID = 1, failing = False\<rparr>
        ''2025-08-10'' ''2025-08-10''
     = Inr \<lparr>From = 20310, To = 20310, TotalKg = Fin 0, ByCategory = Map.empty,
            ByDay = [\<lparr>Date_pt = 20310, Kg = Fin 0\<rparr>]\<rparr>"
  proof -
    have "summary tr oor_amd64 parse_example now_example now_example
        \<lparr>rows = [vegan_row now_example now_example], lastID = 1, failing = False\<rparr>
        ''2025-08-10'' ''2025-08-10''
      = Inr (summarize oor_amd64 midnight_example midnight_example [])"
      by (simp only: summary_def summaryRange_example Find_between_example
          sum.case prod.case option.case)
    then show ?thesis
      by (simp add: summarize_empty lastDay_def midnight_example_def)
  qed
qed

text \<open>
  Claim C9. The stored emission is a function of category, type, quantity and unit alone:
  \<open>computeEmission\<close> gives the same result for any two meta values, and two creations that
  succeed on requests agreeing in those four fields store rows with the same emission,
  which is \<open>computeEmission\<close> of the four fields (whatever the date, the meta object,
  the clock and the storage are).
\<close>

theorem C9_emission_pure:
  "computeEmission lo oor c t q u m = computeEmission lo oor c t q u m'
   \<and> (createActivity lo tr oor parse marshal now db dto = Inr (a, db')
        \<and> createActivity lo tr oor parse' marshal' now' dbx dto' = Inr (a', dbx')
        \<and> Category_dto dto = Category_dto dto' \<and> Type_dto dto = Type_dto dto'
        \<and> Quantity_dto dto = Quantity_dto dto' \<and> Unit_dto dto = Unit_dto dto'
      \<longrightarrow> EmissionKg a = EmissionKg a' \<and> a \<in> set (rows db') \<and> a' \<in> set (rows dbx')
          \<and> EmissionKg a = computeEmission lo oor (Category_dto dto) (Type_dto dto)
                (Quantity_dto dto) (Unit_dto dto) ())"
proof (intro conjI impI)
  show "computeEmission lo oor c t q u m = computeEmission lo oor c t q u m'"
    by (rule computeEmission_meta)
next
  assume h: "createActivity lo tr oor parse marshal now db dto = Inr (a, db')
        \<and> createActivity lo tr oor parse' marshal' now' dbx dto' = Inr (a', dbx')
        \<and> Category_dto dto = Category_dto dto' \<and> Type_dto dto = Type_dto dto'
        \<and> Quantity_dto dto = Quantity_dto dto' \<and> Unit_dto dto = Unit_dto dto'"
  have e: "EmissionKg a = computeEmission lo oor (Category_dto dto) (Type_dto dto)
                (Quantity_dto dto) (Unit_dto dto) (Meta_dto dto)"
    using h createActivity_emission(1) by blast
  have e': "EmissionKg a' = computeEmission lo oor (Category_dto dto') (Type_dto dto')
                (Quantity_dto dto') (Unit_dto dto') (Meta_dto dto')"
    using h createActivity_emission(1) by blast
  show "EmissionKg a = computeEmission lo oor (Category_dto dto) (Type_dto dto)
                (Quantity_dto dto) (Unit_dto dto) ()"
    using e computeEmission_meta [where m = "Meta_dto dto" and m' = "()"] by simp
  show "EmissionKg a = EmissionKg a'"
    using e e' h computeEmission_meta [where m = "Meta_dto dto" and m' = "Meta_dto dto'"] by simp
  show "a \<in> set (rows db')" using h createActivity_emission(2) by blast
  show "a' \<in> set (rows dbx')" using h createActivity_emission(2) by blast
qed

theorem C9_witness:
  "createActivity lowerU_example trimU_example oor_amd64 parse_example marshal_example
     now_example db_empty vegan_today
     = Inr (vegan_row now_example now_example,
          \<lparr>rows = [vegan_row now_example now_example], lastID = 1, failing = False\<rparr>)
   \<and> createActivity lowerU_example trimU_example oor_amd64 parse_example marshal_example
        now_example db_empty vegan_dated
     = Inr (vegan_row midnight_example now_example,
          \<lparr>rows = [vegan_row midnight_example now_example], lastID = 1, failing = False\<rparr>)
   \<and> Category_dto vegan_today = Category_dto vegan_dated
   \<and> Type_dto vegan_today = Type_dto vegan_dated
   \<and> Quantity_dto vegan_today = Quantity_dto vegan_dated
   \<and> Unit_dto vegan_today = Unit_dto vegan_dated
   \<and> Meta_dto vegan_today \<noteq> Meta_dto vegan_dated
   \<and> EmissionKg (vegan_row now_example now_example)
       = EmissionKg (vegan_row midnight_example now_example)"
  using C9_emission_pure [where lo = lowerU_example and tr = trimU_example
      and oor = oor_amd64 and parse = parse_example
      and marshal = marshal_example and now = now_example and db = db_empty and dto = vegan_today
      and a = "vegan_row now_example now_example"
      and db' = "\<lparr>rows = [vegan_row now_example now_example], lastID = 1, failing = False\<rparr>"
      and parse' = parse_example and marshal' = marshal_example and now' = now_example
      and dbx = db_empty and dto' = vegan_dated
      and a' = "vegan_row midnight_example now_example"
      and dbx' = "\<lparr>rows = [vegan_row midnight_example now_example], lastID = 1, failing = False\<rparr>"
      and c = "[]" and t = "[]" and q = "Fin 0" and u = "[]" and m = "()" and m' = "()"]
    create_vegan_today [of lowerU_example trimU_example]
    create_vegan_dated [of lowerU_example trimU_example]
  by (simp add: vegan_today_def vegan_dated_def)

text \<open>
  Claim C10. The value of every point of \<open>by_day\<close> is the float64 sum of the emissions of
  the items of that day as the loop left it: \<open>round2\<close> is not applied to it. Two items
  of 0.1 and 0.2 kg on one day give the point 0.30000000000000004, which \<open>round2\<close> would
  change to 0.3, while \<open>total_kg\<close> is 0.3.
\<close>

theorem C10_by_day_unrounded:
  "\<forall>p \<in> set (ByDay (summarize oor from to items)).
     Kg p = fsum (map EmissionKg (filter (\<lambda>a. Format (Date a) = Date_pt p) items))"
  by (auto simp add: summarize_ByDay)

theorem C10_witness:
  "\<lparr>Date_pt = 20310, Kg = Fin (1351079888211149 / 4503599627370496)\<rparr>
     \<in> set (ByDay (summarize oor_amd64 midnight_example midnight_example tenths_example))
   \<and> Fin (1351079888211149 / 4503599627370496) = fsum [rnd (1 / 10), rnd (2 / 10)]
   \<and> round2 oor_amd64 (Fin (1351079888211149 / 4503599627370496)) = rnd (3 / 10)
   \<and> rnd (3 / 10) \<noteq> Fin (1351079888211149 / 4503599627370496)
   \<and> TotalKg (summarize oor_amd64 midnight_example midnight_example tenths_example) = rnd (3 / 10)"
proof -
  have m: "\<lparr>Date_pt = 20310, Kg = Fin (1351079888211149 / 4503599627370496)\<rparr>
     \<in> set (ByDay (summarize oor_amd64 midnight_example midnight_example tenths_example))"
    by (simp only: tenths_ByDay lit_tenths fsum_tenths) simp
  have "Kg \<lparr>Date_pt = 20310, Kg = Fin (1351079888211149 / 4503599627370496)\<rparr>
     = fsum (map EmissionKg (filter (\<lambda>a. Format (Date a)
         = Date_pt \<lparr>Date_pt = 20310, Kg = Fin (1351079888211149 / 4503599627370496)\<rparr>)
         tenths_example))"
    using C10_by_day_unrounded [of oor_amd64 midnight_example midnight_example tenths_example] m
    by blast
  then have k: "Fin (1351079888211149 / 4503599627370496) = fsum [rnd (1 / 10), rnd (2 / 10)]"
    by (simp add: tenths_filter)
  have r: "round2 oor_amd64 (Fin (1351079888211149 / 4503599627370496)) = rnd (3 / 10)"
    by (simp only: round2_tenths lit_tenths)
  have n: "rnd (3 / 10) \<noteq> Fin (1351079888211149 / 4503599627370496)"
    by (simp only: lit_tenths) simp
  have t: "TotalKg (summarize oor_amd64 midnight_example midnight_example tenths_example) = rnd (3 / 10)"
    by (simp only: summarize_TotalKg tenths_filter lit_tenths fsum_tenths round2_tenths)
  from m k r n t show ?thesis by blast
qed

end
